theory Spec2Isabelle
  imports Main "HOL-Library.AList"
begin

section \<open>Values, function objects and the store\<close>

text \<open>
  The library of \<^verbatim>\<open>src/index.ts\<close> builds test doubles: \<^verbatim>\<open>createBaseMock\<close> makes a
  call-recording function object \<^verbatim>\<open>fn\<close>, \<^verbatim>\<open>createMock\<close> wraps one in a \<^verbatim>\<open>Proxy\<close> whose
  \<^verbatim>\<open>get\<close> handler materialises nested mocks on property reads. Mocks are mutable objects
  with identity, so the model keeps them in a store: an address is an index into a list
  of nodes, and every operation takes the store and returns the new one.

  Scope of the model.
  \<^item> A caller-supplied function is \<open>VFun (User f)\<close>; what it does is given by a parameter
    \<open>U f args\<close>, which either returns a value (\<open>Inr\<close>) or throws one (\<open>Inl\<close>). Such functions
    are functions of their arguments: they do not re-enter the mock.
  \<^item> Arrays and plain objects are values (\<open>VArr\<close>, \<open>VObj\<close>); only mocks have identity.
  \<^item> \<open>VPromiseResolve v\<close> and \<open>VPromiseReject e\<close> stand for the results of
    \<^verbatim>\<open>Promise.resolve(v)\<close> and \<^verbatim>\<open>Promise.reject(e)\<close>. The read of \<^verbatim>\<open>v.then\<close> that
    \<^verbatim>\<open>Promise.resolve\<close> performs before it returns is part of the model (\<open>promise_resolve\<close>);
    how the host settles the promises afterwards is not.
  \<^item> The target of a proxy is a function object of the host. The property names that the
    host resolves on every function (\<open>host_keys\<close>: its own \<^verbatim>\<open>name\<close> and \<^verbatim>\<open>length\<close>, and
    the members inherited from \<^verbatim>\<open>Function.prototype\<close> and \<^verbatim>\<open>Object.prototype\<close>) are not
    modelled: a read or a write of such a key ends in \<open>Unmodelled\<close>, as does every other
    step whose effect depends on the host beyond what is written here.
  \<^item> Chaining methods return the bare function object \<^verbatim>\<open>fn\<close>, not the proxy; the returned
    value is left out, the methods return the store.
  \<^item> Deleting a property, the traps \<^verbatim>\<open>getOwnPropertyDescriptor\<close> and \<^verbatim>\<open>preventExtensions\<close>
    (lines 153 to 167) and \<^verbatim>\<open>resetAllMocks\<close>, which does nothing (lines 255 to 259), are
    left out. The order of the keys that \<^verbatim>\<open>Object.keys\<close> returns is not modelled: the
    \<^verbatim>\<open>ownKeys\<close> trap yields a set.
\<close>

datatype mmethod =
    FnMockImplementation | FnMockImplementationOnce
  | FnMockReturnValue | FnMockReturnValueOnce
  | FnMockResolvedValue | FnMockResolvedValueOnce
  | FnMockRejectedValue | FnMockRejectedValueOnce
  | FnMockClear | FnMockReset
  | BaseMockReturnValue | BaseMockReturnValueOnce
  | BaseMockResolvedValue | BaseMockResolvedValueOnce
  | BaseMockRejectedValue | BaseMockRejectedValueOnce
  | BaseMockClear | BaseMockReset

datatype key = KStr string | KSym string

datatype val =
    VUndefined
  | VNull
  | VBool bool
  | VNum int
  | VStr string
  | VArr "val list"
  | VObj "(string \<times> val) list"
  | VPromiseResolve val
  | VPromiseReject val
  | VFun behaviour
  | VMock nat
  | VMethod nat mmethod
and behaviour =
    Nested nat
  | Return val
  | Resolve val
  | Reject val
  | User nat

text \<open>
  \<open>VMock a\<close> is the proxy returned by \<^verbatim>\<open>createMock\<close> for the node at address \<open>a\<close>;
  \<open>VMethod a m\<close> is the closure \<open>m\<close> that the constructors install on that node
  (\<open>Fn...\<close> by \<^verbatim>\<open>createBaseMock\<close>, \<open>BaseMock...\<close> by \<^verbatim>\<open>createMock\<close>). A behaviour is the
  closure stored as an implementation: \<open>Nested d\<close> is \<^verbatim>\<open>() => createMock(d)\<close>, \<open>Return v\<close> is
  \<^verbatim>\<open>() => v\<close>, \<open>Resolve v\<close> is \<^verbatim>\<open>() => Promise.resolve(v)\<close>, \<open>Reject e\<close> is
  \<^verbatim>\<open>() => Promise.reject(e)\<close>.
\<close>

datatype abort =
    Thrown val
  | TypeError string
  | HostTypeError
  | Unmodelled

text \<open>
  \<open>Thrown e\<close>: a behaviour threw \<open>e\<close>. \<open>TypeError msg\<close>: the source's own
  \<^verbatim>\<open>throw new TypeError(msg)\<close>. \<open>HostTypeError\<close>: the host raised a \<^verbatim>\<open>TypeError\<close> (a property
  of \<^verbatim>\<open>null\<close> or \<^verbatim>\<open>undefined\<close> was read, or a value that is not a function was called).
\<close>

record recorder =
  impl :: val
  defaultImpl :: val
  onceQueue :: "val list"
  props :: "(key \<times> val) list"

record mocknode =
  target :: recorder
  depth :: nat

type_synonym heap = "mocknode list"

definition node_at :: "heap \<Rightarrow> nat \<Rightarrow> mocknode option" where
  "node_at h a = (if a < length h then Some (h ! a) else None)"

definition upd_target :: "heap \<Rightarrow> nat \<Rightarrow> (recorder \<Rightarrow> recorder) \<Rightarrow> heap" where
  "upd_target h a f = h[a := (h ! a)\<lparr>target := f (target (h ! a))\<rparr>]"

subsection \<open>Host primitives\<close>

datatype jstype = TUndefined | TObject | TBoolean | TNumber | TString | TFunction

fun typeof :: "val \<Rightarrow> jstype" where
  "typeof VUndefined = TUndefined"
| "typeof VNull = TObject"
| "typeof (VBool _) = TBoolean"
| "typeof (VNum _) = TNumber"
| "typeof (VStr _) = TString"
| "typeof (VArr _) = TObject"
| "typeof (VObj _) = TObject"
| "typeof (VPromiseResolve _) = TObject"
| "typeof (VPromiseReject _) = TObject"
| "typeof (VFun _) = TFunction"
| "typeof (VMock _) = TFunction"
| "typeof (VMethod _ _) = TFunction"

fun nullish :: "val \<Rightarrow> bool" where
  "nullish VUndefined = True"
| "nullish VNull = True"
| "nullish _ = False"

fun truthy :: "val \<Rightarrow> bool" where
  "truthy VUndefined = False"
| "truthy VNull = False"
| "truthy (VBool b) = b"
| "truthy (VNum n) = (n \<noteq> 0)"
| "truthy (VStr s) = (s \<noteq> [])"
| "truthy _ = True"

fun isArray :: "val \<Rightarrow> bool" where
  "isArray (VArr _) = True"
| "isArray _ = False"

text \<open>
  \<open>member v name\<close> is the read \<^verbatim>\<open>v.name\<close> on a value that is not a proxy, for the
  names the source reads this way (\<^verbatim>\<open>calls\<close>, \<^verbatim>\<open>results\<close>), none of which is a built-in
  member of any host object. Caller-supplied functions and installed closures carry no
  properties of their own.
\<close>

fun member :: "val \<Rightarrow> string \<Rightarrow> abort + val" where
  "member VUndefined name = Inl HostTypeError"
| "member VNull name = Inl HostTypeError"
| "member (VObj fs) name = Inr (case map_of fs name of Some x \<Rightarrow> x | None \<Rightarrow> VUndefined)"
| "member (VMock a) name = Inl Unmodelled"
| "member _ name = Inr VUndefined"

text \<open>
  \<open>assign_member v name x\<close> is the strict-mode assignment \<^verbatim>\<open>v.name = x\<close> and returns the
  updated \<open>v\<close>: a new property goes to the end, an existing one keeps its place.
\<close>

fun assign_member :: "val \<Rightarrow> string \<Rightarrow> val \<Rightarrow> abort + val" where
  "assign_member (VObj fs) name x = Inr (VObj (AList.update name x fs))"
| "assign_member VUndefined name x = Inl HostTypeError"
| "assign_member VNull name x = Inl HostTypeError"
| "assign_member (VBool _) name x = Inl HostTypeError"
| "assign_member (VNum _) name x = Inl HostTypeError"
| "assign_member (VStr _) name x = Inl HostTypeError"
| "assign_member _ name x = Inl Unmodelled"

definition host_keys :: "key list" where
  "host_keys = map KStr
     [''length'', ''name'',
      ''apply'', ''bind'', ''call'', ''toString'', ''constructor'', ''caller'', ''arguments'',
      ''hasOwnProperty'', ''isPrototypeOf'', ''propertyIsEnumerable'', ''toLocaleString'',
      ''valueOf'', ''__proto__'', ''__defineGetter__'', ''__defineSetter__'',
      ''__lookupGetter__'', ''__lookupSetter__'']
     @ [KSym ''Symbol.hasInstance'']"

text \<open>\<open>target_get ps k\<close> is the read \<^verbatim>\<open>target[prop]\<close>, \<open>target_set ps k v\<close> the assignment
  \<^verbatim>\<open>target[prop] = value\<close>, on a function object with own properties \<open>ps\<close>.\<close>

definition target_get :: "(key \<times> val) list \<Rightarrow> key \<Rightarrow> abort + val" where
  "target_get ps k =
     (if k \<in> set host_keys then Inl Unmodelled
      else Inr (case map_of ps k of Some v \<Rightarrow> v | None \<Rightarrow> VUndefined))"

definition target_set :: "(key \<times> val) list \<Rightarrow> key \<Rightarrow> val \<Rightarrow> abort + (key \<times> val) list" where
  "target_set ps k v =
     (if k \<in> set host_keys then Inl Unmodelled else Inr (AList.update k v ps))"

section \<open>createBaseMock\<close>

fun method_name :: "mmethod \<Rightarrow> string" where
  "method_name FnMockImplementation = ''mockImplementation''"
| "method_name FnMockImplementationOnce = ''mockImplementationOnce''"
| "method_name FnMockReturnValue = ''mockReturnValue''"
| "method_name FnMockReturnValueOnce = ''mockReturnValueOnce''"
| "method_name FnMockResolvedValue = ''mockResolvedValue''"
| "method_name FnMockResolvedValueOnce = ''mockResolvedValueOnce''"
| "method_name FnMockRejectedValue = ''mockRejectedValue''"
| "method_name FnMockRejectedValueOnce = ''mockRejectedValueOnce''"
| "method_name FnMockClear = ''mockClear''"
| "method_name FnMockReset = ''mockReset''"
| "method_name BaseMockReturnValue = ''mockReturnValue''"
| "method_name BaseMockReturnValueOnce = ''mockReturnValueOnce''"
| "method_name BaseMockResolvedValue = ''mockResolvedValue''"
| "method_name BaseMockResolvedValueOnce = ''mockResolvedValueOnce''"
| "method_name BaseMockRejectedValue = ''mockRejectedValue''"
| "method_name BaseMockRejectedValueOnce = ''mockRejectedValueOnce''"
| "method_name BaseMockClear = ''mockClear''"
| "method_name BaseMockReset = ''mockReset''"

definition install :: "nat \<Rightarrow> mmethod \<Rightarrow> (key \<times> val) list \<Rightarrow> (key \<times> val) list" where
  "install a m ps = AList.update (KStr (method_name m)) (VMethod a m) ps"

text \<open>
  \<^verbatim>\<open>createBaseMock(defaultImpl)\<close>, lines 2 to 53: the closure variables \<^verbatim>\<open>impl\<close> and
  \<^verbatim>\<open>onceQueue\<close>, and the properties assigned to \<^verbatim>\<open>fn\<close> in the order of the source.
  \<open>a\<close> is the address the new function object will have.
\<close>

definition createBaseMock :: "nat \<Rightarrow> val \<Rightarrow> recorder" where
  "createBaseMock a dflt =
     \<lparr>impl = dflt, defaultImpl = dflt, onceQueue = [],
      props = foldl (\<lambda>ps m. install a m ps)
        [(KStr ''mock'', VObj [(''calls'', VArr []), (''results'', VArr [])])]
        [FnMockImplementation, FnMockImplementationOnce,
         FnMockReturnValue, FnMockReturnValueOnce,
         FnMockResolvedValue, FnMockResolvedValueOnce,
         FnMockRejectedValue, FnMockRejectedValueOnce,
         FnMockClear, FnMockReset]\<rparr>"

section \<open>createMock\<close>

definition MAX_DEPTH :: nat where
  "MAX_DEPTH = 10"

text \<open>
  \<^verbatim>\<open>createMock(depth)\<close>, lines 97 to 218: past the depth limit the result is
  \<^verbatim>\<open>undefined\<close>; otherwise a base mock whose default implementation is
  \<^verbatim>\<open>() => createMock(depth + 1)\<close>, eight of whose methods are reassigned (lines 174 to 214),
  wrapped in a proxy.
\<close>

definition createMock :: "nat \<Rightarrow> heap \<Rightarrow> val \<times> heap" where
  "createMock d h =
     (if d > MAX_DEPTH then (VUndefined, h)
      else
        let a = length h;
            baseMock = createBaseMock a (VFun (Nested (d + 1)));
            baseMock = baseMock\<lparr>props := foldl (\<lambda>ps m. install a m ps) (props baseMock)
              [BaseMockReturnValue, BaseMockReturnValueOnce,
               BaseMockResolvedValue, BaseMockResolvedValueOnce,
               BaseMockRejectedValue, BaseMockRejectedValueOnce,
               BaseMockClear, BaseMockReset]\<rparr>
        in (VMock a, h @ [\<lparr>target = baseMock, depth = d\<rparr>]))"


section \<open>The proxy handler: the \<^verbatim>\<open>get\<close> trap\<close>

text \<open>
  The handler is defined inside \<^verbatim>\<open>createMock\<close> (lines 105 to 168). Its \<^verbatim>\<open>get\<close> trap comes
  first here because the host runs it whenever it reads a property of a proxy, also from
  inside a behaviour that the recorder calls.
\<close>

definition reserved :: "key list" where
  "reserved = map KStr
     [''mock'', ''mockImplementation'', ''mockImplementationOnce'',
      ''mockResolvedValue'', ''mockResolvedValueOnce'',
      ''mockRejectedValue'', ''mockRejectedValueOnce'',
      ''mockReturnValue'', ''mockReturnValueOnce'',
      ''mockClear'', ''mockReset'', ''mockRestore'']"

fun is_symbol :: "key \<Rightarrow> bool" where
  "is_symbol (KSym _) = True"
| "is_symbol (KStr _) = False"

text \<open>The \<^verbatim>\<open>get\<close> trap, lines 106 to 139, of the proxy at address \<open>a\<close>.\<close>

definition handler_get :: "heap \<Rightarrow> nat \<Rightarrow> key \<Rightarrow> (abort + val) \<times> heap" where
  "handler_get h a prop =
     (case node_at h a of
        None \<Rightarrow> (Inl Unmodelled, h)
      | Some n \<Rightarrow>
          if prop \<in> set reserved then (target_get (props (target n)) prop, h)
          else if is_symbol prop then (target_get (props (target n)) prop, h)
          else
            (case target_get (props (target n)) prop of
               Inl e \<Rightarrow> (Inl e, h)
             | Inr v \<Rightarrow>
                 if v \<noteq> VUndefined then (Inr v, h)
                 else
                   let (nestedMock, h1) = createMock (depth n + 1) h
                   in (case target_set (props (target n)) prop nestedMock of
                         Inl e \<Rightarrow> (Inl e, h1)
                       | Inr ps \<Rightarrow> (Inr nestedMock, upd_target h1 a (\<lambda>r. r\<lparr>props := ps\<rparr>)))))"

text \<open>
  \<^verbatim>\<open>Promise.resolve(v)\<close>. To find out whether \<open>v\<close> is a thenable the host reads \<^verbatim>\<open>v.then\<close> at
  once. On a mock that read goes through the \<^verbatim>\<open>get\<close> trap, which materialises a child under
  the key \<^verbatim>\<open>then\<close> if the mock has none. On every other value of the model the read has no
  effect on the store. The call itself never raises: what the read gives only decides how
  the promise settles, and the job that the host queues for a thenable runs after the
  synchronous code; neither is modelled.
\<close>

definition promise_resolve :: "heap \<Rightarrow> val \<Rightarrow> val \<times> heap" where
  "promise_resolve h v =
     (VPromiseResolve v,
      (case v of VMock b \<Rightarrow> snd (handler_get h b (KStr ''then'')) | _ \<Rightarrow> h))"

section \<open>The recorder: calling \<^verbatim>\<open>fn\<close>\<close>

definition own :: "(key \<times> val) list \<Rightarrow> string \<Rightarrow> val" where
  \<comment> \<open>the read \<^verbatim>\<open>fn.name\<close> of an own property; \<open>name\<close> is never a host key\<close>
  "own ps name = (case map_of ps (KStr name) of Some v \<Rightarrow> v | None \<Rightarrow> VUndefined)"

text \<open>\<^verbatim>\<open>fn.mock.field.push(v)\<close> on the properties \<open>ps\<close> of \<^verbatim>\<open>fn\<close>.\<close>

definition push_log :: "(key \<times> val) list \<Rightarrow> string \<Rightarrow> val \<Rightarrow> abort + (key \<times> val) list" where
  "push_log ps field v =
     (case member (own ps ''mock'') field of
        Inl e \<Rightarrow> Inl e
      | Inr (VArr xs) \<Rightarrow>
          (case assign_member (own ps ''mock'') field (VArr (xs @ [v])) of
             Inl e \<Rightarrow> Inl e
           | Inr m \<Rightarrow> Inr (AList.update (KStr ''mock'') m ps))
      | Inr (VObj _) \<Rightarrow> Inl Unmodelled
      | Inr (VMock _) \<Rightarrow> Inl Unmodelled
      | Inr _ \<Rightarrow> Inl HostTypeError)"

definition push_result :: "heap \<Rightarrow> nat \<Rightarrow> string \<Rightarrow> val \<Rightarrow> abort + heap" where
  \<comment> \<open>\<^verbatim>\<open>fn.mock.results.push({ type: ty, value: v })\<close>\<close>
  "push_result h a ty v =
     (case node_at h a of
        None \<Rightarrow> Inl Unmodelled
      | Some n \<Rightarrow>
          (case push_log (props (target n)) ''results''
                  (VObj [(''type'', VStr ty), (''value'', v)]) of
             Inl e \<Rightarrow> Inl e
           | Inr ps \<Rightarrow> Inr (upd_target h a (\<lambda>r. r\<lparr>props := ps\<rparr>))))"

text \<open>
  \<open>call_behaviour U f args h\<close> is the call \<^verbatim>\<open>toCall(...args)\<close>. The closures that the
  library makes run their bodies: \<^verbatim>\<open>createMock(depth + 1)\<close>, \<^verbatim>\<open>v\<close>, \<^verbatim>\<open>Promise.resolve(v)\<close>,
  \<^verbatim>\<open>Promise.reject(e)\<close>. A mock or an installed closure used as an implementation, and a
  value that is not a function, are not modelled.
\<close>

definition call_behaviour ::
  "(nat \<Rightarrow> val list \<Rightarrow> val + val) \<Rightarrow> val \<Rightarrow> val list \<Rightarrow> heap \<Rightarrow> (abort + val) \<times> heap" where
  "call_behaviour U f args h =
     (case f of
        VFun (Nested d) \<Rightarrow> (let (v, h') = createMock d h in (Inr v, h'))
      | VFun (Return v) \<Rightarrow> (Inr v, h)
      | VFun (Resolve v) \<Rightarrow> (let (p, h') = promise_resolve h v in (Inr p, h'))
      | VFun (Reject e) \<Rightarrow> (Inr (VPromiseReject e), h)
      | VFun (User g) \<Rightarrow> ((case U g args of Inl e \<Rightarrow> Inl (Thrown e) | Inr v \<Rightarrow> Inr v), h)
      | _ \<Rightarrow> (Inl Unmodelled, h))"

text \<open>
  The function \<^verbatim>\<open>fn\<close> itself, lines 6 to 18. The argument list is logged first, outside
  the \<^verbatim>\<open>try\<close>; a failure of a \<^verbatim>\<open>push\<close> on the result log leaves the \<^verbatim>\<open>try\<close> and fails
  again in the \<^verbatim>\<open>catch\<close>, so it reaches the caller.
\<close>

definition toCall :: "recorder \<Rightarrow> val" where
  \<comment> \<open>\<^verbatim>\<open>const next = onceQueue.shift(); const toCall = next ?? impl\<close>, on the queue before the shift\<close>
  "toCall r =
     (let next = (case onceQueue r of [] \<Rightarrow> VUndefined | f # _ \<Rightarrow> f)
      in if nullish next then impl r else next)"

definition fn ::
  "(nat \<Rightarrow> val list \<Rightarrow> val + val) \<Rightarrow> heap \<Rightarrow> nat \<Rightarrow> val list \<Rightarrow> (abort + val) \<times> heap" where
  "fn U h a args =
     (case node_at h a of
        None \<Rightarrow> (Inl Unmodelled, h)
      | Some n \<Rightarrow>
          (case push_log (props (target n)) ''calls'' (VArr args) of
             Inl e \<Rightarrow> (Inl e, h)
           | Inr ps \<Rightarrow>
               let h1 = upd_target h a
                          (\<lambda>r. r\<lparr>props := ps, onceQueue := tl (onceQueue r)\<rparr>)
               in if \<not> truthy (toCall (target n)) then
                    (case push_result h1 a ''return'' VUndefined of
                       Inl e \<Rightarrow> (Inl e, h1)
                     | Inr h2 \<Rightarrow> (Inr VUndefined, h2))
                  else
                    (case call_behaviour U (toCall (target n)) args h1 of
                       (Inr res, h2) \<Rightarrow>
                         (case push_result h2 a ''return'' res of
                            Inl e \<Rightarrow> (Inl e, h2)
                          | Inr h3 \<Rightarrow> (Inr res, h3))
                     | (Inl (Thrown err), h2) \<Rightarrow>
                         (case push_result h2 a ''throw'' err of
                            Inl e \<Rightarrow> (Inl e, h2)
                          | Inr h3 \<Rightarrow> (Inl (Thrown err), h3))
                     | (Inl e, h2) \<Rightarrow> (Inl e, h2))))"

section \<open>The configuration methods\<close>

definition fn_mockImplementation :: "heap \<Rightarrow> nat \<Rightarrow> val \<Rightarrow> heap" where
  \<comment> \<open>lines 22 to 25: \<^verbatim>\<open>impl = f\<close>\<close>
  "fn_mockImplementation h a f = upd_target h a (\<lambda>r. r\<lparr>impl := f\<rparr>)"

definition fn_mockImplementationOnce :: "heap \<Rightarrow> nat \<Rightarrow> val \<Rightarrow> heap" where
  \<comment> \<open>lines 27 to 30: \<^verbatim>\<open>onceQueue.push(f)\<close>\<close>
  "fn_mockImplementationOnce h a f = upd_target h a (\<lambda>r. r\<lparr>onceQueue := onceQueue r @ [f]\<rparr>)"

definition set_log :: "(key \<times> val) list \<Rightarrow> string \<Rightarrow> abort + (key \<times> val) list" where
  \<comment> \<open>\<^verbatim>\<open>fn.mock.field = []\<close>\<close>
  "set_log ps field =
     (case assign_member (own ps ''mock'') field (VArr []) of
        Inl e \<Rightarrow> Inl e
      | Inr m \<Rightarrow> Inr (AList.update (KStr ''mock'') m ps))"

definition mockClear :: "heap \<Rightarrow> nat \<Rightarrow> abort + heap" where
  \<comment> \<open>lines 39 to 43 (\<^verbatim>\<open>fn.mockClear\<close>) and 204 to 208 (\<^verbatim>\<open>baseMock.mockClear\<close>): the same statements\<close>
  "mockClear h a =
     (case node_at h a of
        None \<Rightarrow> Inl Unmodelled
      | Some n \<Rightarrow>
          (case set_log (props (target n)) ''calls'' of
             Inl e \<Rightarrow> Inl e
           | Inr ps1 \<Rightarrow>
               (case set_log ps1 ''results'' of
                  Inl e \<Rightarrow> Inl e
                | Inr ps2 \<Rightarrow> Inr (upd_target h a (\<lambda>r. r\<lparr>props := ps2\<rparr>)))))"

text \<open>
  The other methods call a sibling through the property of the function object
  (\<^verbatim>\<open>fn.mockImplementation(...)\<close>, \<^verbatim>\<open>baseMock.mockClear()\<close>), so they run whatever is stored
  under that name when they are called. \<open>call_own\<close> is that call: it runs the three
  closures that call no sibling themselves; any other function stored there is not
  modelled, and a value that is not a function cannot be called.
\<close>

definition call_own :: "heap \<Rightarrow> nat \<Rightarrow> string \<Rightarrow> val \<Rightarrow> abort + heap" where
  "call_own h a name arg =
     (case node_at h a of
        None \<Rightarrow> Inl Unmodelled
      | Some n \<Rightarrow>
          (case own (props (target n)) name of
             VMethod a' FnMockImplementation \<Rightarrow>
               (if a' < length h then Inr (fn_mockImplementation h a' arg) else Inl Unmodelled)
           | VMethod a' FnMockImplementationOnce \<Rightarrow>
               (if a' < length h then Inr (fn_mockImplementationOnce h a' arg) else Inl Unmodelled)
           | VMethod a' FnMockClear \<Rightarrow> mockClear h a'
           | VMethod a' BaseMockClear \<Rightarrow> mockClear h a'
           | VMethod _ _ \<Rightarrow> Inl Unmodelled
           | VFun _ \<Rightarrow> Inl Unmodelled
           | VMock _ \<Rightarrow> Inl Unmodelled
           | _ \<Rightarrow> Inl HostTypeError))"

text \<open>
  The steps above either fail and leave the store as it was, or succeed. A closure made
  of several steps can fail after some of them: it returns the error, if any, with the
  store it has reached.
\<close>

definition step :: "heap \<Rightarrow> abort + heap \<Rightarrow> abort option \<times> heap" where
  "step h r = (case r of Inl e \<Rightarrow> (Some e, h) | Inr h1 \<Rightarrow> (None, h1))"

definition then_do ::
  "abort option \<times> heap \<Rightarrow> (heap \<Rightarrow> abort option \<times> heap) \<Rightarrow> abort option \<times> heap" where
  "then_do r f = (case r of (Some e, h) \<Rightarrow> (Some e, h) | (None, h) \<Rightarrow> f h)"

definition fn_mockReset :: "heap \<Rightarrow> nat \<Rightarrow> abort option \<times> heap" where
  \<comment> \<open>lines 45 to 50: \<^verbatim>\<open>fn.mockClear(); impl = defaultImpl; onceQueue.length = 0\<close>\<close>
  "fn_mockReset h a =
     then_do (step h (call_own h a ''mockClear'' VUndefined))
       (\<lambda>h1. (None, upd_target h1 a (\<lambda>r. r\<lparr>impl := defaultImpl r, onceQueue := []\<rparr>)))"

definition baseMock_mockReset :: "heap \<Rightarrow> nat \<Rightarrow> abort option \<times> heap" where
  \<comment> \<open>lines 210 to 214: \<^verbatim>\<open>baseMock.mockClear();
      baseMock.mockImplementation(() => createMock(depth + 1))\<close>\<close>
  "baseMock_mockReset h a =
     then_do (step h (call_own h a ''mockClear'' VUndefined))
       (\<lambda>h1. step h1
          (call_own h1 a ''mockImplementation'' (VFun (Nested (depth (h1 ! a) + 1)))))"

text \<open>\<open>run_method h a m arg\<close> calls the installed closure \<open>VMethod a m\<close> with one argument
  (\<open>VUndefined\<close> when there is none).\<close>

fun run_method :: "heap \<Rightarrow> nat \<Rightarrow> mmethod \<Rightarrow> val \<Rightarrow> abort option \<times> heap" where
  "run_method h a FnMockImplementation f =
     (if a < length h then (None, fn_mockImplementation h a f) else (Some Unmodelled, h))"
| "run_method h a FnMockImplementationOnce f =
     (if a < length h then (None, fn_mockImplementationOnce h a f) else (Some Unmodelled, h))"
| "run_method h a FnMockReturnValue v =
     step h (call_own h a ''mockImplementation'' (VFun (Return v)))"
| "run_method h a FnMockReturnValueOnce v =
     step h (call_own h a ''mockImplementationOnce'' (VFun (Return v)))"
| "run_method h a FnMockResolvedValue v =
     step h (call_own h a ''mockImplementation'' (VFun (Resolve v)))"
| "run_method h a FnMockResolvedValueOnce v =
     step h (call_own h a ''mockImplementationOnce'' (VFun (Resolve v)))"
| "run_method h a FnMockRejectedValue e =
     step h (call_own h a ''mockImplementation'' (VFun (Reject e)))"
| "run_method h a FnMockRejectedValueOnce e =
     step h (call_own h a ''mockImplementationOnce'' (VFun (Reject e)))"
| "run_method h a FnMockClear _ = step h (mockClear h a)"
| "run_method h a FnMockReset _ = fn_mockReset h a"
| "run_method h a BaseMockReturnValue v =
     step h (call_own h a ''mockImplementation'' (VFun (Return v)))"
| "run_method h a BaseMockReturnValueOnce v =
     step h (call_own h a ''mockImplementationOnce'' (VFun (Return v)))"
| "run_method h a BaseMockResolvedValue v =
     step h (call_own h a ''mockImplementation'' (VFun (Resolve v)))"
| "run_method h a BaseMockResolvedValueOnce v =
     step h (call_own h a ''mockImplementationOnce'' (VFun (Resolve v)))"
| "run_method h a BaseMockRejectedValue e =
     step h (call_own h a ''mockImplementation'' (VFun (Reject e)))"
| "run_method h a BaseMockRejectedValueOnce e =
     step h (call_own h a ''mockImplementationOnce'' (VFun (Reject e)))"
| "run_method h a BaseMockClear _ = step h (mockClear h a)"
| "run_method h a BaseMockReset _ = baseMock_mockReset h a"

section \<open>The proxy handler: the other traps\<close>

text \<open>The \<^verbatim>\<open>set\<close> trap, lines 142 to 145.\<close>

definition handler_set :: "heap \<Rightarrow> nat \<Rightarrow> key \<Rightarrow> val \<Rightarrow> abort + heap" where
  "handler_set h a prop v =
     (case node_at h a of
        None \<Rightarrow> Inl Unmodelled
      | Some n \<Rightarrow>
          (case target_set (props (target n)) prop v of
             Inl e \<Rightarrow> Inl e
           | Inr ps \<Rightarrow> Inr (upd_target h a (\<lambda>r. r\<lparr>props := ps\<rparr>))))"



text \<open>
  The call \<^verbatim>\<open>v.name(arg)\<close> of a configuration member on a function value \<open>v\<close>: on a
  proxy the name goes through the \<^verbatim>\<open>get\<close> trap; a caller-supplied function and an
  installed closure have no such member, so the call is a call of \<^verbatim>\<open>undefined\<close>.
\<close>

definition call_method :: "heap \<Rightarrow> val \<Rightarrow> string \<Rightarrow> val \<Rightarrow> abort option \<times> heap" where
  "call_method h v name arg =
     (case v of
        VMock a \<Rightarrow>
          (case handler_get h a (KStr name) of
             (Inl e, h1) \<Rightarrow> (Some e, h1)
           | (Inr (VMethod a' m), h1) \<Rightarrow> run_method h1 a' m arg
           | (Inr (VFun _), h1) \<Rightarrow> (Some Unmodelled, h1)
           | (Inr (VMock _), h1) \<Rightarrow> (Some Unmodelled, h1)
           | (Inr _, h1) \<Rightarrow> (Some HostTypeError, h1))
      | VFun _ \<Rightarrow> (Some HostTypeError, h)
      | VMethod _ _ \<Rightarrow> (Some HostTypeError, h)
      | _ \<Rightarrow> (Some Unmodelled, h))"

section \<open>isMock, getCallInfo, createMockWithDefaults\<close>

definition read_mock :: "heap \<Rightarrow> val \<Rightarrow> abort + val" where
  \<comment> \<open>the read \<^verbatim>\<open>value.mock\<close> on a function value\<close>
  "read_mock h v =
     (case v of VMock a \<Rightarrow> fst (handler_get h a (KStr ''mock'')) | _ \<Rightarrow> Inr VUndefined)"

text \<open>\<^verbatim>\<open>isMock(value)\<close>, lines 236 to 244; the conjunction is evaluated left to right.\<close>

definition isMock :: "heap \<Rightarrow> val \<Rightarrow> abort + bool" where
  "isMock h v =
     (if typeof v \<noteq> TFunction then Inr False
      else if nullish v then Inr False
      else
        (case read_mock h v of
           Inl e \<Rightarrow> Inl e
         | Inr m \<Rightarrow>
             if typeof m \<noteq> TObject then Inr False
             else
               (case member m ''calls'' of
                  Inl e \<Rightarrow> Inl e
                | Inr c \<Rightarrow>
                    if \<not> isArray c then Inr False
                    else
                      (case member m ''results'' of
                         Inl e \<Rightarrow> Inl e
                       | Inr r \<Rightarrow> Inr (isArray r)))))"

record callinfo =
  callCount :: nat
  calls :: "val list"
  results :: "val list"
  lastCall :: val
  lastResult :: val

definition at_index :: "val list \<Rightarrow> int \<Rightarrow> val" where
  \<comment> \<open>\<^verbatim>\<open>xs[i]\<close>: \<^verbatim>\<open>undefined\<close> outside the array\<close>
  "at_index xs i = (if 0 \<le> i \<and> i < int (length xs) then xs ! nat i else VUndefined)"

definition or_else :: "val \<Rightarrow> val \<Rightarrow> val" where
  \<comment> \<open>\<^verbatim>\<open>x || y\<close>\<close>
  "or_else x y = (if truthy x then x else y)"

text \<open>\<^verbatim>\<open>getCallInfo(mockFn)\<close>, lines 301 to 315.\<close>

definition getCallInfo :: "heap \<Rightarrow> val \<Rightarrow> abort + callinfo" where
  "getCallInfo h mockFn =
     (case isMock h mockFn of
        Inl e \<Rightarrow> Inl e
      | Inr False \<Rightarrow> Inl (TypeError ''Argument must be a mock function'')
      | Inr True \<Rightarrow>
          (case read_mock h mockFn of
             Inl e \<Rightarrow> Inl e
           | Inr m \<Rightarrow>
               (case (member m ''calls'', member m ''results'') of
                  (Inr (VArr cs), Inr (VArr rs)) \<Rightarrow>
                    Inr \<lparr>callCount = length cs, calls = cs, results = rs,
                         lastCall = or_else (at_index cs (int (length cs) - 1)) (VArr []),
                         lastResult = or_else (at_index rs (int (length rs) - 1))
                           (VObj [(''type'', VStr ''return''), (''value'', VUndefined)])\<rparr>
                | _ \<Rightarrow> Inl Unmodelled)))"

text \<open>
  \<^verbatim>\<open>createMockWithDefaults(defaults)\<close>, lines 270 to 289. \<open>install_default\<close> is the body of
  the \<^verbatim>\<open>forEach\<close>; the entries are those of \<^verbatim>\<open>Object.entries(defaults)\<close>, keys distinct.
  An exception leaves the loop and the function.
\<close>

definition install_default :: "heap \<Rightarrow> nat \<Rightarrow> string \<times> val \<Rightarrow> abort option \<times> heap" where
  "install_default h mockObj entry =
     (case entry of (key, v) \<Rightarrow>
        (case handler_get h mockObj (KStr key) of
           (Inl e, h1) \<Rightarrow> (Some e, h1)
         | (Inr mockProp, h1) \<Rightarrow>
             if typeof mockProp = TFunction \<and> typeof v = TFunction
             then call_method h1 mockProp ''mockImplementation'' v
             else if typeof mockProp = TFunction
             then call_method h1 mockProp ''mockReturnValue'' v
             else step h1 (handler_set h1 mockObj (KStr key) v)))"

fun forEach :: "heap \<Rightarrow> nat \<Rightarrow> (string \<times> val) list \<Rightarrow> abort option \<times> heap" where
  "forEach h mockObj [] = (None, h)"
| "forEach h mockObj (entry # entries) =
     then_do (install_default h mockObj entry) (\<lambda>h1. forEach h1 mockObj entries)"

definition createMockWithDefaults ::
  "(string \<times> val) list option \<Rightarrow> heap \<Rightarrow> (abort + val) \<times> heap" where
  "createMockWithDefaults defaults h =
     (case createMock 0 h of
        (VMock mockObj, h1) \<Rightarrow>
          (case defaults of
             None \<Rightarrow> (Inr (VMock mockObj), h1)
           | Some entries \<Rightarrow>
               (case forEach h1 mockObj entries of
                  (Some e, h2) \<Rightarrow> (Inl e, h2)
                | (None, h2) \<Rightarrow> (Inr (VMock mockObj), h2)))
      | (_, h1) \<Rightarrow> (Inl Unmodelled, h1))"

section \<open>Notions used in the statements\<close>

text \<open>
  \<open>log_of ps field\<close> reads the array \<^verbatim>\<open>fn.mock.field\<close> off the properties of a recorder,
  if it is there; \<open>logged\<close> is the state after a \<^verbatim>\<open>push\<close>; a recorder is in order when both
  logs are arrays, which is what \<open>isMock\<close> tests.
\<close>

definition log_of :: "(key \<times> val) list \<Rightarrow> string \<Rightarrow> val list option" where
  "log_of ps field =
     (case own ps ''mock'' of
        VObj fs \<Rightarrow> (case map_of fs field of Some (VArr xs) \<Rightarrow> Some xs | _ \<Rightarrow> None)
      | _ \<Rightarrow> None)"

definition logged :: "(key \<times> val) list \<Rightarrow> string \<Rightarrow> val \<Rightarrow> (key \<times> val) list" where
  "logged ps field v =
     (case own ps ''mock'' of
        VObj fs \<Rightarrow>
          AList.update (KStr ''mock'')
            (VObj (AList.update field (VArr (the (log_of ps field) @ [v])) fs)) ps
      | _ \<Rightarrow> ps)"

definition recorder_ok :: "heap \<Rightarrow> nat \<Rightarrow> bool" where
  "recorder_ok h a =
     (a < length h \<and> log_of (props (target (h ! a))) ''calls'' \<noteq> None
                  \<and> log_of (props (target (h ! a))) ''results'' \<noteq> None)"

text \<open>
  What one call of \<^verbatim>\<open>fn\<close> (lines 6 to 18) leaves behind: \<open>entry\<close> is an element of
  \<^verbatim>\<open>fn.mock.results\<close>; \<open>after_call r args out\<close> is what a call with arguments \<open>args\<close>,
  whose chosen behaviour ended in \<open>out\<close>, does to the queue and the logs of the recorder
  \<open>r\<close>: the head of the one-shot queue is gone, the arguments are logged, and the outcome
  is logged when it is a return or a throw of the behaviour. \<open>fn_many\<close> is a sequence of
  calls of one node, the results dropped.
\<close>

definition entry :: "string \<Rightarrow> val \<Rightarrow> val" where
  "entry ty v = VObj [(''type'', VStr ty), (''value'', v)]"

definition log_result :: "heap \<Rightarrow> nat \<Rightarrow> string \<Rightarrow> val \<Rightarrow> heap" where
  "log_result h a ty v = upd_target h a (\<lambda>r. r\<lparr>props := logged (props r) ''results'' (entry ty v)\<rparr>)"

definition log_call :: "heap \<Rightarrow> nat \<Rightarrow> val list \<Rightarrow> heap" where
  "log_call h a args =
     upd_target h a (\<lambda>r. r\<lparr>props := logged (props r) ''calls'' (VArr args),
                             onceQueue := tl (onceQueue r)\<rparr>)"

definition after_call :: "recorder \<Rightarrow> val list \<Rightarrow> abort + val \<Rightarrow> recorder" where
  "after_call r args out =
     (let r1 = r\<lparr>onceQueue := tl (onceQueue r), props := logged (props r) ''calls'' (VArr args)\<rparr>
      in case out of
           Inr res \<Rightarrow> r1\<lparr>props := logged (props r1) ''results'' (entry ''return'' res)\<rparr>
         | Inl (Thrown err) \<Rightarrow> r1\<lparr>props := logged (props r1) ''results'' (entry ''throw'' err)\<rparr>
         | Inl _ \<Rightarrow> r1)"

fun fn_many :: "(nat \<Rightarrow> val list \<Rightarrow> val + val) \<Rightarrow> heap \<Rightarrow> nat \<Rightarrow> val list list \<Rightarrow> heap" where
  "fn_many U h a [] = h"
| "fn_many U h a (args # rest) = fn_many U (snd (fn U h a args)) a rest"

definition result_entries :: "abort + val \<Rightarrow> val list" where
  "result_entries out =
     (case out of
        Inr res \<Rightarrow> [entry ''return'' res]
      | Inl (Thrown err) \<Rightarrow> [entry ''throw'' err]
      | Inl _ \<Rightarrow> [])"

text \<open>
  \<open>prop_at h b k\<close> is the own property \<open>k\<close> of the function object at address \<open>b\<close>, if it has
  one. \<open>installed_keys\<close> are the eleven members that \<^verbatim>\<open>createBaseMock\<close> (lines 3 and 20 to 50)
  assigns to every function object it makes.

  \<open>frame K h h'\<close> relates a store to a later one: no node is lost; outside the set \<open>K\<close> of
  (address, key) pairs, a property of an old node is unchanged or is a plain object replaced
  by a plain object (the log record \<^verbatim>\<open>fn.mock\<close>, which every call replaces); and a node that
  is new has, outside \<open>K\<close>, only installed members.
\<close>

definition prop_at :: "heap \<Rightarrow> nat \<Rightarrow> key \<Rightarrow> val option" where
  "prop_at h b k = map_of (props (target (h ! b))) k"

definition installed_keys :: "key list" where
  "installed_keys = map KStr
     [''mock'', ''mockImplementation'', ''mockImplementationOnce'',
      ''mockReturnValue'', ''mockReturnValueOnce'',
      ''mockResolvedValue'', ''mockResolvedValueOnce'',
      ''mockRejectedValue'', ''mockRejectedValueOnce'',
      ''mockClear'', ''mockReset'']"

definition same_or_log :: "val option \<Rightarrow> val option \<Rightarrow> bool" where
  "same_or_log x y = (x = y \<or> (\<exists>fs fs'. x = Some (VObj fs) \<and> y = Some (VObj fs')))"

definition frame :: "(nat \<times> key) set \<Rightarrow> heap \<Rightarrow> heap \<Rightarrow> bool" where
  "frame K h h' =
     (length h \<le> length h'
      \<and> (\<forall>b k. b < length h \<and> (b, k) \<notin> K \<longrightarrow> same_or_log (prop_at h b k) (prop_at h' b k))
      \<and> (\<forall>b k. length h \<le> b \<and> b < length h' \<and> (b, k) \<notin> K \<and> prop_at h' b k \<noteq> None
             \<longrightarrow> k \<in> set installed_keys))"









text \<open>
  A key is ordinary when the \<^verbatim>\<open>get\<close> trap neither answers it from the recorder (the
  reserved names of lines 108 to 121, the symbols of line 126) nor leaves it to the host.
  \<open>walk h v ks\<close> is the chain of reads \<^verbatim>\<open>v.k1.k2...\<close>: a read on \<^verbatim>\<open>undefined\<close> or \<^verbatim>\<open>null\<close>
  raises the host's type error, a read on any other value that is not a mock is outside
  the model. A node is unvisited at depth \<open>d\<close> when it has that depth, \<open>isMock\<close> recognises it
  and it holds no ordinary key yet.
\<close>

definition ordinary :: "key \<Rightarrow> bool" where
  "ordinary k = (k \<notin> set reserved \<and> \<not> is_symbol k \<and> k \<notin> set host_keys)"

fun walk :: "heap \<Rightarrow> val \<Rightarrow> key list \<Rightarrow> (abort + val) \<times> heap" where
  "walk h v [] = (Inr v, h)"
| "walk h v (k # ks) =
     (case v of
        VMock a \<Rightarrow>
          (case handler_get h a k of
             (Inl e, h1) \<Rightarrow> (Inl e, h1)
           | (Inr v1, h1) \<Rightarrow> walk h1 v1 ks)
      | VUndefined \<Rightarrow> (Inl HostTypeError, h)
      | VNull \<Rightarrow> (Inl HostTypeError, h)
      | _ \<Rightarrow> (Inl Unmodelled, h))"

definition unvisited :: "heap \<Rightarrow> nat \<Rightarrow> nat \<Rightarrow> bool" where
  "unvisited h a d =
     (a < length h \<and> depth (h ! a) = d \<and> recorder_ok h a
      \<and> (\<forall>k. ordinary k \<longrightarrow> prop_at h a k = None))"

text \<open>
  Notions for \<^verbatim>\<open>createMockWithDefaults\<close> (lines 270 to 289). \<open>method_names\<close> are the ten
  reserved names that hold a function on every mock. \<open>default_impl v\<close> is the behaviour that
  lines 278 to 282 install for a default \<open>v\<close>: the function itself, or a function returning
  the value. \<open>once_closure name w\<close> is the behaviour that the one-shot member \<open>name\<close>, called
  with \<open>w\<close>, puts on the queue. \<open>new_props a\<close> and \<open>new_node a d f\<close> describe the node at address
  \<open>a\<close> as \<^verbatim>\<open>createMock\<close> leaves it at depth \<open>d\<close>, with current behaviour \<open>f\<close>.
  \<open>installed_ok h r k v\<close> says that the default \<open>v\<close> for key \<open>k\<close> is in place on the root \<open>r\<close>:
  for a reserved key the property holds \<open>v\<close> itself, for any other key it holds a child
  mock, a node as \<^verbatim>\<open>createMock\<close> leaves it at depth 1, whose behaviour is \<open>default_impl v\<close>.
  \<open>root_ready h r ks\<close> says that the members \<open>ks\<close> of the root are still the ones installed
  at creation; \<open>key_ok\<close> is the condition on the keys of a defaults map.
\<close>

definition method_names :: "string list" where
  "method_names =
     [''mockImplementation'', ''mockImplementationOnce'',
      ''mockReturnValue'', ''mockReturnValueOnce'',
      ''mockResolvedValue'', ''mockResolvedValueOnce'',
      ''mockRejectedValue'', ''mockRejectedValueOnce'',
      ''mockClear'', ''mockReset'']"

definition default_impl :: "val \<Rightarrow> val" where
  "default_impl v = (if typeof v = TFunction then v else VFun (Return v))"

definition once_closure :: "string \<Rightarrow> val \<Rightarrow> val option" where
  "once_closure name w =
     (if name = ''mockImplementationOnce'' then Some w
      else if name = ''mockReturnValueOnce'' then Some (VFun (Return w))
      else if name = ''mockResolvedValueOnce'' then Some (VFun (Resolve w))
      else if name = ''mockRejectedValueOnce'' then Some (VFun (Reject w))
      else None)"

definition new_props :: "nat \<Rightarrow> (key \<times> val) list" where
  "new_props a =
     [(KStr ''mock'', VObj [(''calls'', VArr []), (''results'', VArr [])]),
      (KStr ''mockImplementation'', VMethod a FnMockImplementation),
      (KStr ''mockImplementationOnce'', VMethod a FnMockImplementationOnce),
      (KStr ''mockReturnValue'', VMethod a BaseMockReturnValue),
      (KStr ''mockReturnValueOnce'', VMethod a BaseMockReturnValueOnce),
      (KStr ''mockResolvedValue'', VMethod a BaseMockResolvedValue),
      (KStr ''mockResolvedValueOnce'', VMethod a BaseMockResolvedValueOnce),
      (KStr ''mockRejectedValue'', VMethod a BaseMockRejectedValue),
      (KStr ''mockRejectedValueOnce'', VMethod a BaseMockRejectedValueOnce),
      (KStr ''mockClear'', VMethod a BaseMockClear),
      (KStr ''mockReset'', VMethod a BaseMockReset)]"

definition new_node :: "nat \<Rightarrow> nat \<Rightarrow> val \<Rightarrow> mocknode" where
  "new_node a d f =
     \<lparr>target = \<lparr>impl = f, defaultImpl = VFun (Nested (Suc d)), onceQueue = [],
                 props = new_props a\<rparr>,
      depth = d\<rparr>"

definition installed_ok :: "heap \<Rightarrow> nat \<Rightarrow> string \<Rightarrow> val \<Rightarrow> bool" where
  "installed_ok h r k v =
     (if KStr k \<in> set reserved then prop_at h r (KStr k) = Some v
      else (\<exists>c. c < length h \<and> c \<noteq> r \<and> prop_at h r (KStr k) = Some (VMock c)
              \<and> h ! c = new_node c (Suc 0) (default_impl v)))"

definition root_ready :: "heap \<Rightarrow> nat \<Rightarrow> string list \<Rightarrow> bool" where
  "root_ready h r ks =
     (r < length h \<and> depth (h ! r) = 0
      \<and> (\<forall>k\<in>set ks. prop_at h r (KStr k) = map_of (new_props r) (KStr k)))"

definition key_ok :: "string \<Rightarrow> bool" where
  "key_ok k = (KStr k \<notin> set host_keys \<and> k \<notin> set method_names)"

section \<open>Properties of the recorder\<close>

lemma mock_not_host: "KStr ''mock'' \<notin> set host_keys"
  by (simp add: host_keys_def)

lemma mock_reserved: "KStr ''mock'' \<in> set reserved"
  by (simp add: reserved_def)

lemma node_atD: "node_at h a = Some n \<Longrightarrow> a < length h \<and> n = h ! a"
  by (auto simp: node_at_def split: if_splits)

lemma nth_upd_target:
  "b < length h \<Longrightarrow>
   upd_target h a f ! b = (if b = a then (h ! a)\<lparr>target := f (target (h ! a))\<rparr> else h ! b)"
  by (simp add: upd_target_def)

lemma read_mock_VMock:
  "a < length h \<Longrightarrow> read_mock h (VMock a) = Inr (own (props (target (h ! a))) ''mock'')"
  by (simp add: read_mock_def handler_get_def node_at_def mock_reserved target_get_def
      mock_not_host own_def)

lemma read_mock_dangling: "\<not> a < length h \<Longrightarrow> read_mock h (VMock a) = Inl Unmodelled"
  by (simp add: read_mock_def handler_get_def node_at_def)

lemma log_ofD:
  "log_of ps field = Some xs \<Longrightarrow>
     \<exists>fs. own ps ''mock'' = VObj fs \<and> map_of fs field = Some (VArr xs)"
  by (auto simp: log_of_def split: val.splits option.splits)

lemma log_ofI:
  "own ps ''mock'' = VObj fs \<Longrightarrow> map_of fs field = Some (VArr xs) \<Longrightarrow> log_of ps field = Some xs"
  by (simp add: log_of_def)

lemma isMock_iff: "isMock h (VMock a) = Inr True \<longleftrightarrow> recorder_ok h a"
proof (cases "a < length h")
  case True
  then show ?thesis
    by (cases "own (props (target (h ! a))) ''mock''")
       (auto simp: isMock_def recorder_ok_def log_of_def read_mock_VMock
             split: option.splits val.splits)
next
  case False
  then show ?thesis
    by (simp add: isMock_def recorder_ok_def read_mock_dangling)
qed

lemma own_update_same [simp]: "own (AList.update (KStr name) v ps) name = v"
  by (simp add: own_def update_conv')

lemma own_update_other [simp]: "k \<noteq> KStr name \<Longrightarrow> own (AList.update k v ps) name = own ps name"
  by (simp add: own_def update_conv')

lemma push_log_ok:
  "log_of ps field = Some xs \<Longrightarrow> push_log ps field v = Inr (logged ps field v)"
  by (frule log_ofD) (auto simp: push_log_def logged_def)

lemma log_of_logged_same:
  "log_of ps field = Some xs \<Longrightarrow> log_of (logged ps field v) field = Some (xs @ [v])"
  by (auto simp: logged_def log_of_def update_conv' split: val.splits option.splits)

lemma log_of_logged_other:
  "log_of ps field = Some xs \<Longrightarrow> field' \<noteq> field \<Longrightarrow>
   log_of (logged ps field v) field' = log_of ps field'"
  by (auto simp: logged_def log_of_def update_conv' split: val.splits option.splits)

lemma call_behaviour_length:
  "length h = length h' \<Longrightarrow> fst (call_behaviour U f args h) = fst (call_behaviour U f args h')"
  by (auto simp: call_behaviour_def promise_resolve_def createMock_def Let_def
      split: val.splits behaviour.splits)

lemma target_upd_target [simp]:
  "a < length h \<Longrightarrow> target (upd_target h a f ! a) = f (target (h ! a))"
  by (simp add: upd_target_def)

lemma length_upd_target [simp]: "length (upd_target h a f) = length h"
  by (simp add: upd_target_def)

lemma then_plain:
  "KStr ''then'' \<notin> set reserved" "KStr ''then'' \<notin> set host_keys" "\<not> is_symbol (KStr ''then'')"
  by (simp_all add: reserved_def host_keys_def)

lemma createMock_keeps:
  "b < length h \<Longrightarrow> snd (createMock d h) ! b = h ! b"
  "length h \<le> length (snd (createMock d h))"
  by (simp_all add: createMock_def Let_def nth_append)

lemma handler_get_shape:
  "snd (handler_get h a k) = h
   \<or> (\<exists>d. snd (handler_get h a k) = snd (createMock d h))
   \<or> (\<exists>d v. snd (handler_get h a k) =
         upd_target (snd (createMock d h)) a (\<lambda>r. r\<lparr>props := AList.update k v (props r)\<rparr>)
         \<and> a < length h \<and> k \<notin> set reserved)"
  by (auto simp: handler_get_def target_get_def target_set_def upd_target_def Let_def
      createMock_def nth_append
      split: option.splits if_splits sum.splits prod.splits dest!: node_atD)

lemma call_behaviour_shape:
  "snd (call_behaviour U f args h) = h
   \<or> (\<exists>d. snd (call_behaviour U f args h) = snd (createMock d h))
   \<or> (\<exists>b. f = VFun (Resolve (VMock b))
          \<and> snd (call_behaviour U f args h) = snd (handler_get h b (KStr ''then'')))"
  by (auto simp: call_behaviour_def promise_resolve_def split: val.splits behaviour.splits prod.splits)
     (metis snd_conv)

lemma own_props_update:
  "k \<notin> set reserved \<Longrightarrow> own (AList.update k v ps) ''mock'' = own ps ''mock''"
  using mock_reserved by (intro own_update_other) auto

lemma handler_get_node:
  assumes b: "b < length h"
  shows "length h \<le> length (snd (handler_get h a k))"
    and "impl (target (snd (handler_get h a k) ! b)) = impl (target (h ! b))"
    and "onceQueue (target (snd (handler_get h a k) ! b)) = onceQueue (target (h ! b))"
    and "own (props (target (snd (handler_get h a k) ! b))) ''mock'' = own (props (target (h ! b))) ''mock''"
proof -
  note c = createMock_keeps [where h = h]
  have b': "b < length (snd (createMock d h))" for d using b c(2) [of d] by simp
  from handler_get_shape [of h a k]
  consider "snd (handler_get h a k) = h"
    | d where "snd (handler_get h a k) = snd (createMock d h)"
    | d v where "snd (handler_get h a k) =
         upd_target (snd (createMock d h)) a (\<lambda>r. r\<lparr>props := AList.update k v (props r)\<rparr>)"
        "k \<notin> set reserved"
    by blast
  then show "length h \<le> length (snd (handler_get h a k))"
    by cases (simp_all add: c(2))
  from handler_get_shape [of h a k]
  consider "snd (handler_get h a k) = h"
    | d where "snd (handler_get h a k) = snd (createMock d h)"
    | d v where "snd (handler_get h a k) =
         upd_target (snd (createMock d h)) a (\<lambda>r. r\<lparr>props := AList.update k v (props r)\<rparr>)"
        "k \<notin> set reserved"
    by blast
  then show "impl (target (snd (handler_get h a k) ! b)) = impl (target (h ! b))"
    using b by cases (simp_all add: c(1) nth_upd_target b')
  from handler_get_shape [of h a k]
  consider "snd (handler_get h a k) = h"
    | d where "snd (handler_get h a k) = snd (createMock d h)"
    | d v where "snd (handler_get h a k) =
         upd_target (snd (createMock d h)) a (\<lambda>r. r\<lparr>props := AList.update k v (props r)\<rparr>)"
        "k \<notin> set reserved"
    by blast
  then show "onceQueue (target (snd (handler_get h a k) ! b)) = onceQueue (target (h ! b))"
    using b by cases (simp_all add: c(1) nth_upd_target b')
  from handler_get_shape [of h a k]
  consider "snd (handler_get h a k) = h"
    | d where "snd (handler_get h a k) = snd (createMock d h)"
    | d v where "snd (handler_get h a k) =
         upd_target (snd (createMock d h)) a (\<lambda>r. r\<lparr>props := AList.update k v (props r)\<rparr>)"
        "k \<notin> set reserved"
    by blast
  then show "own (props (target (snd (handler_get h a k) ! b))) ''mock'' =
      own (props (target (h ! b))) ''mock''"
    using b by cases (simp_all add: c(1) nth_upd_target b' own_props_update)
qed

lemma call_behaviour_node:
  assumes b: "b < length h"
  shows "length h \<le> length (snd (call_behaviour U f args h))"
    and "impl (target (snd (call_behaviour U f args h) ! b)) = impl (target (h ! b))"
    and "onceQueue (target (snd (call_behaviour U f args h) ! b)) = onceQueue (target (h ! b))"
    and "own (props (target (snd (call_behaviour U f args h) ! b))) ''mock'' =
           own (props (target (h ! b))) ''mock''"
  using call_behaviour_shape [of U f args h] b
  by (auto simp: createMock_keeps handler_get_node)

lemma log_of_cong: "own ps ''mock'' = own ps' ''mock'' \<Longrightarrow> log_of ps field = log_of ps' field"
  by (simp add: log_of_def)

lemma push_result_ok:
  "a < length h \<Longrightarrow> log_of (props (target (h ! a))) ''results'' = Some rs \<Longrightarrow>
   push_result h a ty v = Inr (log_result h a ty v)"
  by (simp add: push_result_def node_at_def push_log_ok log_result_def entry_def upd_target_def)

lemma results_after_log_call:
  "recorder_ok h a \<Longrightarrow>
   log_of (props (target (log_call h a args ! a))) ''results'' =
   log_of (props (target (h ! a))) ''results''"
  by (auto simp: recorder_ok_def log_call_def log_of_logged_other)

lemma fn_ok:
  assumes ok: "recorder_ok h a"
  shows "fn U h a args =
     (if \<not> truthy (toCall (target (h ! a)))
      then (Inr VUndefined, log_result (log_call h a args) a ''return'' VUndefined)
      else
        (case call_behaviour U (toCall (target (h ! a))) args (log_call h a args) of
           (Inr res, h2) \<Rightarrow> (Inr res, log_result h2 a ''return'' res)
         | (Inl (Thrown err), h2) \<Rightarrow> (Inl (Thrown err), log_result h2 a ''throw'' err)
         | (Inl e, h2) \<Rightarrow> (Inl e, h2)))"
proof -
  from ok obtain cs rs where a: "a < length h"
    and cs: "log_of (props (target (h ! a))) ''calls'' = Some cs"
    and rs: "log_of (props (target (h ! a))) ''results'' = Some rs"
    by (auto simp: recorder_ok_def)
  let ?h1 = "log_call h a args"
  have h1: "upd_target h a (\<lambda>r. r\<lparr>props := logged (props (target (h ! a))) ''calls'' (VArr args),
              onceQueue := tl (onceQueue r)\<rparr>) = ?h1"
    by (simp add: log_call_def upd_target_def)
  have rs1: "log_of (props (target (?h1 ! a))) ''results'' = Some rs"
    using results_after_log_call [OF ok] rs by simp
  have a1: "a < length ?h1" using a by (simp add: log_call_def)
  have push1: "\<And>ty v. push_result ?h1 a ty v = Inr (log_result ?h1 a ty v)"
    using push_result_ok [OF a1 rs1] .
  obtain out h2 where cb:
    "call_behaviour U (toCall (target (h ! a))) args ?h1 = (out, h2)"
    by (cases "call_behaviour U (toCall (target (h ! a))) args ?h1")
  have push2: "push_result h2 a ty v = Inr (log_result h2 a ty v)" for ty v
  proof -
    have "a < length h2"
      using a1 call_behaviour_node(1) [OF a1, of U "toCall (target (h ! a))" args] cb by simp
    moreover have "log_of (props (target (h2 ! a))) ''results'' = Some rs"
      using call_behaviour_node(4) [OF a1, of U "toCall (target (h ! a))" args] cb rs1
        log_of_cong [of "props (target (h2 ! a))" "props (target (?h1 ! a))" "''results''"]
      by simp
    ultimately show ?thesis by (rule push_result_ok)
  qed
  show ?thesis
    using a cs
    by (simp add: fn_def node_at_def push_log_ok h1 push1 push2 cb
             split: sum.splits abort.splits)
qed

lemma fn_result:
  assumes "recorder_ok h a"
  shows "fst (fn U h a args) =
     (if \<not> truthy (toCall (target (h ! a))) then Inr VUndefined
      else fst (call_behaviour U (toCall (target (h ! a))) args h))"
proof -
  have len: "length (log_call h a args) = length h"
    by (simp add: log_call_def)
  show ?thesis
    unfolding fn_ok [OF assms] call_behaviour_length [OF len [symmetric], of U _ args]
    by (auto split: prod.splits sum.splits abort.splits)
qed

lemma fn_after:
  assumes ok: "recorder_ok h a"
  shows "\<exists>h2. a < length h2 \<and> length h \<le> length h2
        \<and> impl (target (h2 ! a)) = impl (target (h ! a))
        \<and> onceQueue (target (h2 ! a)) = tl (onceQueue (target (h ! a)))
        \<and> own (props (target (h2 ! a))) ''mock'' =
            own (logged (props (target (h ! a))) ''calls'' (VArr args)) ''mock''
        \<and> snd (fn U h a args) =
            (case fst (fn U h a args) of
               Inr res \<Rightarrow> log_result h2 a ''return'' res
             | Inl (Thrown err) \<Rightarrow> log_result h2 a ''throw'' err
             | Inl e \<Rightarrow> h2)"
proof -
  have a: "a < length h" using ok by (simp add: recorder_ok_def)
  let ?h1 = "log_call h a args"
  let ?f = "toCall (target (h ! a))"
  have a1: "a < length ?h1" and l1: "length ?h1 = length h"
    using a by (simp_all add: log_call_def)
  have i1: "impl (target (?h1 ! a)) = impl (target (h ! a))"
    and q1: "onceQueue (target (?h1 ! a)) = tl (onceQueue (target (h ! a)))"
    and m1: "props (target (?h1 ! a)) = logged (props (target (h ! a))) ''calls'' (VArr args)"
    using a by (simp_all add: log_call_def)
  show ?thesis
  proof (cases "truthy ?f")
    case False
    then have "fn U h a args = (Inr VUndefined, log_result ?h1 a ''return'' VUndefined)"
      by (simp add: fn_ok [OF ok])
    then show ?thesis
      using a1 l1 i1 q1 m1 by (intro exI [of _ ?h1]) simp
  next
    case True
    obtain out h2 where cb: "call_behaviour U ?f args ?h1 = (out, h2)"
      by (cases "call_behaviour U ?f args ?h1")
    note n = call_behaviour_node [OF a1, of U ?f args, unfolded cb snd_conv]
    have fn_eq: "fn U h a args =
       (case out of Inr res \<Rightarrow> (Inr res, log_result h2 a ''return'' res)
        | Inl (Thrown err) \<Rightarrow> (Inl (Thrown err), log_result h2 a ''throw'' err)
        | Inl e \<Rightarrow> (Inl e, h2))"
      using True by (simp add: fn_ok [OF ok] cb split: sum.splits abort.splits)
    have "snd (fn U h a args) =
            (case fst (fn U h a args) of
               Inr res \<Rightarrow> log_result h2 a ''return'' res
             | Inl (Thrown err) \<Rightarrow> log_result h2 a ''throw'' err
             | Inl e \<Rightarrow> h2)"
      unfolding fn_eq by (simp split: sum.splits abort.splits)
    then show ?thesis
      using a1 l1 i1 q1 m1 n by (intro exI [of _ h2]) simp
  qed
qed

lemma set_log_ok:
  "own ps ''mock'' = VObj fs \<Longrightarrow>
   set_log ps field = Inr (AList.update (KStr ''mock'') (VObj (AList.update field (VArr []) fs)) ps)"
  by (simp add: set_log_def)

lemma mockClear_ok:
  assumes a: "a < length h" and m: "own (props (target (h ! a))) ''mock'' = VObj fs"
  shows "mockClear h a = Inr (upd_target h a (\<lambda>r. r\<lparr>props :=
           AList.update (KStr ''mock'')
             (VObj (AList.update ''results'' (VArr []) (AList.update ''calls'' (VArr []) fs)))
             (props r)\<rparr>))"
  using a m by (simp add: mockClear_def node_at_def set_log_ok upd_target_def)

lemma recorder_ok_mock:
  "recorder_ok h a \<Longrightarrow> \<exists>fs. own (props (target (h ! a))) ''mock'' = VObj fs"
  by (auto simp: recorder_ok_def dest: log_ofD)

lemma toCall_cong:
  "impl r' = impl r \<Longrightarrow> onceQueue r' = onceQueue r \<Longrightarrow> toCall r' = toCall r"
  by (simp add: toCall_def Let_def)

lemma getCallInfo_ok:
  assumes "a < length h"
    and "log_of (props (target (h ! a))) ''calls'' = Some cs"
    and "log_of (props (target (h ! a))) ''results'' = Some rs"
  shows "getCallInfo h (VMock a) =
     Inr \<lparr>callCount = length cs, calls = cs, results = rs,
          lastCall = or_else (at_index cs (int (length cs) - 1)) (VArr []),
          lastResult = or_else (at_index rs (int (length rs) - 1)) (entry ''return'' VUndefined)\<rparr>"
proof -
  have ok: "isMock h (VMock a) = Inr True"
    using assms by (simp add: isMock_iff recorder_ok_def)
  from assms(2) obtain fs where fs: "own (props (target (h ! a))) ''mock'' = VObj fs"
    "map_of fs ''calls'' = Some (VArr cs)" by (auto dest: log_ofD)
  from assms(3) fs have rs: "map_of fs ''results'' = Some (VArr rs)" by (auto dest: log_ofD)
  show ?thesis
    using assms(1) fs rs by (simp add: getCallInfo_def ok read_mock_VMock entry_def)
qed

lemma after_call_fields [simp]:
  "impl (after_call r args out) = impl r"
  "defaultImpl (after_call r args out) = defaultImpl r"
  "onceQueue (after_call r args out) = tl (onceQueue r)"
  by (auto simp: after_call_def Let_def split: sum.splits abort.splits)

lemma after_call_logs:
  assumes "log_of (props r) ''calls'' = Some cs" and "log_of (props r) ''results'' = Some rs"
  shows "log_of (props (after_call r args out)) ''calls'' = Some (cs @ [VArr args])"
    and "log_of (props (after_call r args out)) ''results'' = Some (rs @ result_entries out)"
proof -
  let ?p1 = "logged (props r) ''calls'' (VArr args)"
  have c1: "log_of ?p1 ''calls'' = Some (cs @ [VArr args])"
    using assms(1) by (rule log_of_logged_same)
  have r1: "log_of ?p1 ''results'' = Some rs"
    using log_of_logged_other [OF assms(1), of "''results''"] assms(2) by simp
  have c2: "log_of (logged ?p1 ''results'' e) ''calls'' = Some (cs @ [VArr args])" for e
    using log_of_logged_other [OF r1, of "''calls''"] c1 by simp
  have r2: "log_of (logged ?p1 ''results'' e) ''results'' = Some (rs @ [e])" for e
    using r1 by (rule log_of_logged_same)
  show "log_of (props (after_call r args out)) ''calls'' = Some (cs @ [VArr args])"
    by (auto simp: after_call_def Let_def c1 c2 split: sum.splits abort.splits)
  show "log_of (props (after_call r args out)) ''results'' = Some (rs @ result_entries out)"
    by (auto simp: after_call_def Let_def r1 r2 result_entries_def split: sum.splits abort.splits)
qed

lemma own_logged_cong:
  "own ps ''mock'' = own ps' ''mock'' \<Longrightarrow>
   own (logged ps field v) ''mock'' = own (logged ps' field v) ''mock''"
  by (auto simp: logged_def log_of_def split: val.splits)

lemma log_result_node:
  assumes "a < length h"
  shows "length (log_result h a ty v) = length h"
    and "impl (target (log_result h a ty v ! a)) = impl (target (h ! a))"
    and "onceQueue (target (log_result h a ty v ! a)) = onceQueue (target (h ! a))"
    and "props (target (log_result h a ty v ! a)) =
           logged (props (target (h ! a))) ''results'' (entry ty v)"
  using assms by (simp_all add: log_result_def)

lemma fn_node:
  assumes ok: "recorder_ok h a"
  shows "length h \<le> length (snd (fn U h a args))"
    and "impl (target (snd (fn U h a args) ! a)) = impl (target (h ! a))"
    and "onceQueue (target (snd (fn U h a args) ! a)) = tl (onceQueue (target (h ! a)))"
    and "own (props (target (snd (fn U h a args) ! a))) ''mock'' =
           own (props (after_call (target (h ! a)) args (fst (fn U h a args)))) ''mock''"
proof -
  from fn_after [OF ok, where args = args and U = U] obtain h2 where
    a2: "a < length h2" and l2: "length h \<le> length h2"
    and i2: "impl (target (h2 ! a)) = impl (target (h ! a))"
    and q2: "onceQueue (target (h2 ! a)) = tl (onceQueue (target (h ! a)))"
    and m2: "own (props (target (h2 ! a))) ''mock'' =
            own (logged (props (target (h ! a))) ''calls'' (VArr args)) ''mock''"
    and s: "snd (fn U h a args) =
            (case fst (fn U h a args) of
               Inr res \<Rightarrow> log_result h2 a ''return'' res
             | Inl (Thrown err) \<Rightarrow> log_result h2 a ''throw'' err
             | Inl e \<Rightarrow> h2)"
    by blast
  note r = log_result_node [OF a2]
  show "length h \<le> length (snd (fn U h a args))"
    unfolding s using l2 by (simp add: r(1) split: sum.splits abort.splits)
  show "impl (target (snd (fn U h a args) ! a)) = impl (target (h ! a))"
    unfolding s using i2 by (simp add: r(2) split: sum.splits abort.splits)
  show "onceQueue (target (snd (fn U h a args) ! a)) = tl (onceQueue (target (h ! a)))"
    unfolding s using q2 by (simp add: r(3) split: sum.splits abort.splits)
  show "own (props (target (snd (fn U h a args) ! a))) ''mock'' =
           own (props (after_call (target (h ! a)) args (fst (fn U h a args)))) ''mock''"
    unfolding s using m2 own_logged_cong [OF m2, of "''results''"]
    by (simp add: r(4) after_call_def split: sum.splits abort.splits)
qed

lemma fn_logs:
  assumes ok: "recorder_ok h a"
    and cs: "log_of (props (target (h ! a))) ''calls'' = Some cs"
    and rs: "log_of (props (target (h ! a))) ''results'' = Some rs"
  shows "log_of (props (target (snd (fn U h a args) ! a))) ''calls'' = Some (cs @ [VArr args])"
    and "log_of (props (target (snd (fn U h a args) ! a))) ''results'' =
           Some (rs @ result_entries (fst (fn U h a args)))"
  using after_call_logs [OF cs rs, of args "fst (fn U h a args)"]
    log_of_cong [OF fn_node(4) [OF ok, of U args]]
  by simp_all

lemma fn_keeps_ok:
  assumes ok: "recorder_ok h a"
  shows "recorder_ok (snd (fn U h a args)) a"
proof -
  from ok obtain cs rs where a: "a < length h"
    and cs: "log_of (props (target (h ! a))) ''calls'' = Some cs"
    and rs: "log_of (props (target (h ! a))) ''results'' = Some rs"
    by (auto simp: recorder_ok_def)
  show ?thesis
    using a fn_node(1) [OF ok, of U args] fn_logs [OF ok cs rs, of U args]
    by (simp add: recorder_ok_def)
qed

lemma fn_queue:
  assumes ok: "recorder_ok h a"
  shows "onceQueue (target (snd (fn U h a args) ! a)) = tl (onceQueue (target (h ! a)))"
    and "impl (target (snd (fn U h a args) ! a)) = impl (target (h ! a))"
  by (simp_all add: fn_node [OF ok])

lemma recorder_ok_upd:
  "recorder_ok h a \<Longrightarrow> props (f (target (h ! a))) = props (target (h ! a)) \<Longrightarrow>
   recorder_ok (upd_target h a f) a"
  by (simp add: recorder_ok_def)

lemma once_ok:
  "recorder_ok h a \<Longrightarrow> recorder_ok (fn_mockImplementationOnce h a f) a"
  by (simp add: fn_mockImplementationOnce_def recorder_ok_upd)

lemma once_fields:
  assumes "a < length h"
  shows "onceQueue (target (fn_mockImplementationOnce h a f ! a)) = onceQueue (target (h ! a)) @ [f]"
    and "impl (target (fn_mockImplementationOnce h a f ! a)) = impl (target (h ! a))"
  using assms by (simp_all add: fn_mockImplementationOnce_def)

lemma toCall_queued: "onceQueue r = VFun b # q \<Longrightarrow> toCall r = VFun b"
  by (simp add: toCall_def)

lemma toCall_default: "onceQueue r = [] \<Longrightarrow> toCall r = impl r"
  by (simp add: toCall_def)

lemma fn_closure:
  "recorder_ok h a \<Longrightarrow> toCall (target (h ! a)) = VFun b \<Longrightarrow>
   fst (fn U h a args) = fst (call_behaviour U (VFun b) args h)"
  by (simp add: fn_result)

lemma fn_many_default:
  "recorder_ok h a \<Longrightarrow> onceQueue (target (h ! a)) = [] \<Longrightarrow>
   recorder_ok (fn_many U h a xs) a \<and> onceQueue (target (fn_many U h a xs ! a)) = []
   \<and> impl (target (fn_many U h a xs ! a)) = impl (target (h ! a))"
proof (induction xs arbitrary: h)
  case Nil
  then show ?case by simp
next
  case (Cons x xs)
  have "recorder_ok (snd (fn U h a x)) a"
    using Cons.prems(1) by (rule fn_keeps_ok)
  moreover have "onceQueue (target (snd (fn U h a x) ! a)) = []"
    using Cons.prems by (simp add: fn_queue)
  ultimately show ?case
    using Cons.IH [of "snd (fn U h a x)"] Cons.prems(1) by (simp add: fn_queue)
qed

lemma same_or_log_refl [simp]: "same_or_log x x"
  by (simp add: same_or_log_def)

lemma same_or_log_trans: "same_or_log x y \<Longrightarrow> same_or_log y z \<Longrightarrow> same_or_log x z"
  by (auto simp: same_or_log_def)

lemma same_or_log_None: "same_or_log x y \<Longrightarrow> y \<noteq> None \<Longrightarrow> x \<noteq> None"
  by (auto simp: same_or_log_def)

lemma frame_len: "frame K h h' \<Longrightarrow> length h \<le> length h'"
  by (simp add: frame_def)


lemma frame_new:
  "frame K h h' \<Longrightarrow> length h \<le> b \<Longrightarrow> b < length h' \<Longrightarrow> (b, k) \<notin> K \<Longrightarrow>
   prop_at h' b k \<noteq> None \<Longrightarrow> k \<in> set installed_keys"
  unfolding frame_def by blast

lemma frame_refl: "frame K h h"
  by (auto simp: frame_def)

lemma frame_mono: "frame K h h' \<Longrightarrow> K \<subseteq> K' \<Longrightarrow> frame K' h h'"
  unfolding frame_def by blast

lemma frame_trans:
  assumes 1: "frame K1 h h1" and 2: "frame K2 h1 h2"
  shows "frame (K1 \<union> K2) h h2"
  unfolding frame_def
proof (intro conjI allI impI)
  show "length h \<le> length h2" using 1 2 by (simp add: frame_def)
next
  fix b k assume "b < length h \<and> (b, k) \<notin> K1 \<union> K2"
  then have b: "b < length h" "(b, k) \<notin> K1" "(b, k) \<notin> K2" by auto
  then have "b < length h1" using 1 by (simp add: frame_def)
  with b 1 2 have "same_or_log (prop_at h b k) (prop_at h1 b k)"
    "same_or_log (prop_at h1 b k) (prop_at h2 b k)" by (simp_all add: frame_def)
  then show "same_or_log (prop_at h b k) (prop_at h2 b k)" by (rule same_or_log_trans)
next
  fix b k
  assume "length h \<le> b \<and> b < length h2 \<and> (b, k) \<notin> K1 \<union> K2 \<and> prop_at h2 b k \<noteq> None"
  then have b: "length h \<le> b" "b < length h2" "(b, k) \<notin> K1" "(b, k) \<notin> K2"
    "prop_at h2 b k \<noteq> None" by auto
  show "k \<in> set installed_keys"
  proof (cases "b < length h1")
    case True
    with b 2 have "same_or_log (prop_at h1 b k) (prop_at h2 b k)" by (simp add: frame_def)
    then have "prop_at h1 b k \<noteq> None" using b(5) by (rule same_or_log_None)
    with True b 1 show ?thesis by (simp add: frame_def)
  next
    case False
    then have "length h1 \<le> b" by simp
    then show ?thesis using b by (intro frame_new [OF 2]) simp_all
  qed
qed

lemma frame_trans0: "frame {} h h1 \<Longrightarrow> frame K h1 h2 \<Longrightarrow> frame K h h2"
  using frame_trans [of "{}" h h1 K h2] by simp

lemma frame_trans1: "frame K h h1 \<Longrightarrow> frame {} h1 h2 \<Longrightarrow> frame K h h2"
  using frame_trans [of K h h1 "{}" h2] by simp

lemma install_keys: "fst ` set (install a m ps) = insert (KStr (method_name m)) (fst ` set ps)"
  by (simp add: install_def dom_update)

lemma createMock_node_keys:
  "d \<le> MAX_DEPTH \<Longrightarrow>
   fst ` set (props (target (snd (createMock d h) ! length h))) = set installed_keys"
  by (auto simp: createMock_def Let_def createBaseMock_def install_keys installed_keys_def)

lemma frame_createMock: "frame K h (snd (createMock d h))"
proof (cases "d \<le> MAX_DEPTH")
  case True
  have len: "length (snd (createMock d h)) = Suc (length h)"
    using True by (simp add: createMock_def Let_def)
  have old: "b < length h \<Longrightarrow> snd (createMock d h) ! b = h ! b" for b
    using True by (simp add: createMock_def Let_def nth_append)
  have new: "map_of (props (target (snd (createMock d h) ! length h))) k = Some y
      \<Longrightarrow> k \<in> set installed_keys" for k y
    using createMock_node_keys [OF True, of h] by (auto dest!: map_of_SomeD) force
  show ?thesis
    unfolding frame_def len
    by (auto simp: prop_at_def old less_Suc_eq_le dest: new)
next
  case False
  then show ?thesis by (simp add: createMock_def frame_refl)
qed

lemma frame_upd_target:
  assumes "\<And>k. (a, k) \<notin> K \<Longrightarrow>
     same_or_log (map_of (props (target (h ! a))) k) (map_of (props (f (target (h ! a)))) k)"
  shows "frame K h (upd_target h a f)"
proof (cases "a < length h")
  case True
  have "same_or_log (prop_at h b k) (prop_at (upd_target h a f) b k)"
    if "b < length h" "(b, k) \<notin> K" for b k
    using that assms [of k] by (cases "b = a") (simp_all add: prop_at_def upd_target_def)
  then show ?thesis by (auto simp: frame_def)
next
  case False
  then have "upd_target h a f = h" by (simp add: upd_target_def list_update_beyond)
  then show ?thesis by (simp add: frame_refl)
qed

lemma frame_upd_fields:
  "props (f (target (h ! a))) = props (target (h ! a)) \<Longrightarrow> frame K h (upd_target h a f)"
  by (rule frame_upd_target) simp

lemma frame_upd_key:
  "frame {(a, k)} h (upd_target h a (\<lambda>r. r\<lparr>props := AList.update k v (props r)\<rparr>))"
  by (rule frame_upd_target) (auto simp: update_conv')

lemma own_VObj: "own ps name = VObj fs \<Longrightarrow> map_of ps (KStr name) = Some (VObj fs)"
  by (auto simp: own_def split: option.splits)

lemma assign_member_Inr: "assign_member m field x = Inr m' \<Longrightarrow> \<exists>fs fs'. m = VObj fs \<and> m' = VObj fs'"
  by (cases m) auto


lemma set_log_same:
  assumes "set_log ps field = Inr ps'"
  shows "same_or_log (map_of ps k) (map_of ps' k)"
proof -
  from assms obtain m where
    m: "assign_member (own ps ''mock'') field (VArr []) = Inr m"
    and ps': "ps' = AList.update (KStr ''mock'') m ps"
    by (auto simp: set_log_def split: sum.splits)
  from assign_member_Inr [OF m] obtain fs fs' where
    "own ps ''mock'' = VObj fs" "m = VObj fs'" by blast
  then show ?thesis
    by (auto simp: ps' update_conv' same_or_log_def dest: own_VObj)
qed


lemma frame_mockClear:
  assumes "mockClear h a = Inr h'"
  shows "frame K h h'"
proof -
  from assms obtain ps1 ps2 where
    ps1: "set_log (props (target (h ! a))) ''calls'' = Inr ps1"
    and ps2: "set_log ps1 ''results'' = Inr ps2"
    and h': "h' = upd_target h a (\<lambda>r. r\<lparr>props := ps2\<rparr>)"
    by (auto simp: mockClear_def split: option.splits sum.splits dest!: node_atD)
  show ?thesis
    unfolding h'
    by (rule frame_upd_target)
       (simp add: same_or_log_trans [OF set_log_same [OF ps1] set_log_same [OF ps2]])
qed

lemma handler_get_unchanged:
  "k \<in> set reserved \<or> is_symbol k \<Longrightarrow> snd (handler_get h a k) = h"
  by (auto simp: handler_get_def split: option.splits)

lemma frame_handler_get: "frame {(a, k)} h (snd (handler_get h a k))"
  using handler_get_shape [of h a k]
  by (auto simp: frame_refl frame_createMock
      intro: frame_trans0 [OF frame_createMock frame_upd_key])


lemma handler_get_cached:
  assumes "a < length h" and "k \<notin> set host_keys" and "prop_at h a k = Some v"
    and "v \<noteq> VUndefined"
  shows "handler_get h a k = (Inr v, h)"
  using assms by (simp add: handler_get_def node_at_def target_get_def prop_at_def)










lemma frame_upd_fields_from:
  "frame K h h1 \<Longrightarrow> props (f (target (h1 ! a))) = props (target (h1 ! a)) \<Longrightarrow>
   frame K h (upd_target h1 a f)"
  by (rule frame_trans1 [OF _ frame_upd_fields])

lemma frame_fn_mockImplementation: "frame K h (fn_mockImplementation h a f)"
  unfolding fn_mockImplementation_def by (rule frame_upd_fields) simp

lemma frame_fn_mockImplementationOnce: "frame K h (fn_mockImplementationOnce h a f)"
  unfolding fn_mockImplementationOnce_def by (rule frame_upd_fields) simp

lemma frame_call_own: "call_own h a name arg = Inr h' \<Longrightarrow> frame K h h'"
  by (auto simp: call_own_def split: option.splits val.splits mmethod.splits if_splits
      intro: frame_fn_mockImplementation frame_fn_mockImplementationOnce frame_mockClear)

lemma frame_step: "(\<And>h'. r = Inr h' \<Longrightarrow> frame K h h') \<Longrightarrow> frame K h (snd (step h r))"
  by (cases r) (simp_all add: step_def frame_refl)

lemma frame_then_do:
  "frame K h (snd r) \<Longrightarrow> (\<And>h1. frame K h h1 \<Longrightarrow> frame K h (snd (f h1))) \<Longrightarrow>
   frame K h (snd (then_do r f))"
  by (cases r) (auto simp: then_do_def split: option.splits)

lemma frame_step_from:
  "frame K h h1 \<Longrightarrow> (\<And>h'. r = Inr h' \<Longrightarrow> frame {} h1 h') \<Longrightarrow> frame K h (snd (step h1 r))"
  by (cases r) (auto simp: step_def intro: frame_trans1)

lemma frame_run_method: "frame K h (snd (run_method h a m arg))"
proof -
  have own: "frame K h (snd (step h (call_own h a name x)))" for name x
    by (rule frame_step) (rule frame_call_own)
  have clear: "frame K h (snd (step h (mockClear h a)))"
    by (rule frame_step) (rule frame_mockClear)
  have r1: "frame K h (snd (fn_mockReset h a))"
    unfolding fn_mockReset_def
    by (rule frame_then_do [OF own]) (simp add: frame_upd_fields_from)
  have r2: "frame K h (snd (baseMock_mockReset h a))"
    unfolding baseMock_mockReset_def
    by (rule frame_then_do [OF own]) (auto intro: frame_step_from frame_call_own)
  show ?thesis
    by (cases m)
       (simp_all add: own clear r1 r2 frame_refl frame_fn_mockImplementation
          frame_fn_mockImplementationOnce)
qed

lemma frame_handler_set:
  assumes "handler_set h a k v = Inr h'"
  shows "frame {(a, k)} h h'"
proof -
  from assms have "h' = upd_target h a (\<lambda>r. r\<lparr>props := AList.update k v (props r)\<rparr>)"
    by (auto simp: handler_set_def target_set_def upd_target_def
        split: option.splits if_splits dest!: node_atD)
  then show ?thesis by (simp add: frame_upd_key)
qed

lemma frame_call_method:
  assumes "\<And>a. v = VMock a \<Longrightarrow> (a, KStr name) \<in> K \<or> KStr name \<in> set reserved"
  shows "frame K h (snd (call_method h v name arg))"
proof (cases v)
  case (VMock a)
  obtain out h1 where g: "handler_get h a (KStr name) = (out, h1)"
    by (cases "handler_get h a (KStr name)")
  have f1: "frame K h h1"
  proof (cases "KStr name \<in> set reserved")
    case True
    then show ?thesis using handler_get_unchanged [of "KStr name" h a] g by (simp add: frame_refl)
  next
    case False
    with assms VMock have "(a, KStr name) \<in> K" by blast
    then show ?thesis
      using frame_mono [OF frame_handler_get [of a "KStr name" h], of K] g by simp
  qed
  have "snd (call_method h v name arg) = h1
      \<or> (\<exists>a' m. snd (call_method h v name arg) = snd (run_method h1 a' m arg))"
    using VMock g by (auto simp: call_method_def split: sum.splits val.splits)
  then show ?thesis
    using f1 frame_trans1 [OF f1 frame_run_method] by auto
qed (simp_all add: call_method_def frame_refl)

lemma frame_install_default:
  "frame {(mockObj, KStr (fst ent))} h (snd (install_default h mockObj ent))"
proof -
  obtain key v where e: "ent = (key, v)" by (cases ent)
  obtain out h1 where g: "handler_get h mockObj (KStr key) = (out, h1)"
    by (cases "handler_get h mockObj (KStr key)")
  let ?K = "{(mockObj, KStr key)}"
  have f1: "frame ?K h h1"
    using frame_handler_get [of mockObj "KStr key" h] g by simp
  have r: "KStr ''mockImplementation'' \<in> set reserved" "KStr ''mockReturnValue'' \<in> set reserved"
    by (simp_all add: reserved_def)
  have cm: "frame ?K h (snd (call_method h1 p name v))" if "KStr name \<in> set reserved" for p name
    using that by (intro frame_trans1 [OF f1] frame_call_method) simp
  have st: "frame ?K h (snd (step h1 (handler_set h1 mockObj (KStr key) v)))"
    using frame_trans [OF f1 frame_handler_set [of h1 mockObj "KStr key" v]]
    by (cases "handler_set h1 mockObj (KStr key) v") (simp_all add: step_def f1)
  show ?thesis
    using f1 cm [OF r(1)] cm [OF r(2)] st
    by (cases out) (simp_all add: install_default_def e g)
qed

lemma frame_forEach:
  "frame ((\<lambda>e. (mockObj, KStr (fst e))) ` set entries) h (snd (forEach h mockObj entries))"
proof (induction entries arbitrary: h)
  case Nil
  show ?case by (simp add: frame_refl)
next
  case (Cons e es)
  obtain r h1 where i: "install_default h mockObj e = (r, h1)"
    by (cases "install_default h mockObj e")
  have f1: "frame {(mockObj, KStr (fst e))} h h1"
    using frame_install_default [of mockObj e h] i by simp
  show ?case
  proof (cases r)
    case None
    have "frame ({(mockObj, KStr (fst e))} \<union> (\<lambda>e. (mockObj, KStr (fst e))) ` set es) h
            (snd (forEach h1 mockObj es))"
      using f1 Cons.IH [of h1] by (rule frame_trans)
    then show ?thesis using None i by (simp add: then_do_def)
  next
    case (Some x)
    then show ?thesis
      using i frame_mono [OF f1, of "(\<lambda>e. (mockObj, KStr (fst e))) ` set (e # es)"]
      by (simp add: then_do_def)
  qed
qed








lemma handler_set_Inr:
  assumes "handler_set h a k v = Inr h1"
  shows "a < length h" and "k \<notin> set host_keys"
    and "h1 = upd_target h a (\<lambda>r. r\<lparr>props := AList.update k v (props r)\<rparr>)"
  using assms
  by (auto simp: handler_set_def target_set_def upd_target_def
      split: option.splits if_splits dest!: node_atD)

lemma read_after_write_undefined:
  assumes set: "handler_set h a k VUndefined = Inr h1"
    and k: "k \<notin> set reserved" "\<not> is_symbol k" and d: "depth (h ! a) < MAX_DEPTH"
  shows "fst (handler_get h1 a k) = Inr (VMock (length h1))"
proof -
  note s = handler_set_Inr [OF set]
  have a1: "a < length h1" using s(1) by (simp add: s(3))
  have p: "map_of (props (target (h1 ! a))) k = Some VUndefined"
    using s(1) by (simp add: s(3) update_conv')
  have d1: "depth (h1 ! a) = depth (h ! a)" using s(1) by (simp add: s(3) upd_target_def)
  show ?thesis
    using a1 s(2) p d1 k d
    by (simp add: handler_get_def node_at_def target_get_def target_set_def createMock_def
        Let_def)
qed

lemma isMock_not_function: "typeof v \<noteq> TFunction \<Longrightarrow> isMock h v = Inr False"
  by (simp add: isMock_def)

lemma isMock_plain_function:
  "isMock h (VFun b) = Inr False" "isMock h (VMethod a m) = Inr False"
  by (simp_all add: isMock_def read_mock_def)

lemma isMock_raises_iff:
  "(\<exists>e. isMock h v = Inl e) \<longleftrightarrow>
   (\<exists>a. v = VMock a \<and> (\<not> a < length h \<or> own (props (target (h ! a))) ''mock'' = VNull))"
proof (cases v)
  case (VMock a)
  show ?thesis
  proof (cases "a < length h")
    case True
    then show ?thesis
      using VMock
      by (cases "own (props (target (h ! a))) ''mock''")
         (auto simp: isMock_def read_mock_VMock split: option.splits)
  next
    case False
    then show ?thesis using VMock by (simp add: isMock_def read_mock_dangling)
  qed
qed (simp_all add: isMock_def read_mock_def)

lemma getCallInfo_not_mock:
  "isMock h v = Inr False \<Longrightarrow> getCallInfo h v = Inl (TypeError ''Argument must be a mock function'')"
  by (simp add: getCallInfo_def)

lemma isMock_True_VMock: "isMock h v = Inr True \<Longrightarrow> \<exists>a. v = VMock a"
  by (cases v) (simp_all add: isMock_def read_mock_def)

lemma getCallInfo_mock:
  assumes "isMock h v = Inr True"
  shows "\<exists>cs rs. getCallInfo h v =
     Inr \<lparr>callCount = length cs, calls = cs, results = rs,
          lastCall = (if cs = [] then VArr [] else or_else (last cs) (VArr [])),
          lastResult = (if rs = [] then VObj [(''type'', VStr ''return''), (''value'', VUndefined)]
                        else or_else (last rs)
                          (VObj [(''type'', VStr ''return''), (''value'', VUndefined)]))\<rparr>"
proof -
  from isMock_True_VMock [OF assms] obtain a where v: "v = VMock a" by blast
  with assms have "recorder_ok h a" by (simp add: isMock_iff)
  then obtain cs rs where a: "a < length h"
    and cs: "log_of (props (target (h ! a))) ''calls'' = Some cs"
    and rs: "log_of (props (target (h ! a))) ''results'' = Some rs"
    by (auto simp: recorder_ok_def)
  have idx: "at_index xs (int (length xs) - 1) = (if xs = [] then VUndefined else last xs)"
    for xs :: "val list"
    by (cases "xs = []") (auto simp: at_index_def last_conv_nth nat_diff_distrib')
  show ?thesis
    unfolding v getCallInfo_ok [OF a cs rs] idx
    by (intro exI [of _ cs] exI [of _ rs]) (simp add: or_else_def entry_def)
qed

lemma resets_differ:
  assumes a: "a < length h"
    and c: "own (props (target (h ! a))) ''mockClear'' = VMethod a BaseMockClear"
    and i: "own (props (target (h ! a))) ''mockImplementation'' = VMethod a FnMockImplementation"
    and m: "own (props (target (h ! a))) ''mock'' = VObj fs"
  shows "\<exists>h'. baseMock_mockReset h a = (None, h')
           \<and> onceQueue (target (h' ! a)) = onceQueue (target (h ! a))
           \<and> impl (target (h' ! a)) = VFun (Nested (depth (h ! a) + 1))"
    and "\<exists>h'. fn_mockReset h a = (None, h') \<and> onceQueue (target (h' ! a)) = []
           \<and> impl (target (h' ! a)) = defaultImpl (target (h ! a))"
proof -
  let ?h1 = "upd_target h a (\<lambda>r. r\<lparr>props :=
           AList.update (KStr ''mock'')
             (VObj (AList.update ''results'' (VArr []) (AList.update ''calls'' (VArr []) fs)))
             (props r)\<rparr>)"
  have clear: "call_own h a ''mockClear'' VUndefined = Inr ?h1"
    using a c by (simp add: call_own_def node_at_def mockClear_ok [OF a m])
  have a1: "a < length ?h1" using a by simp
  have i1: "own (props (target (?h1 ! a))) ''mockImplementation'' = VMethod a FnMockImplementation"
    using a i by simp
  have impl: "call_own ?h1 a ''mockImplementation'' f = Inr (fn_mockImplementation ?h1 a f)" for f
    using a1 i1 by (simp add: call_own_def node_at_def)
  have d1: "depth (?h1 ! a) = depth (h ! a)" using a by (simp add: upd_target_def)
  have eq: "baseMock_mockReset h a =
      (None, fn_mockImplementation ?h1 a (VFun (Nested (depth (h ! a) + 1))))"
    by (simp add: baseMock_mockReset_def clear impl step_def then_do_def d1)
  show "\<exists>h'. baseMock_mockReset h a = (None, h')
           \<and> onceQueue (target (h' ! a)) = onceQueue (target (h ! a))
           \<and> impl (target (h' ! a)) = VFun (Nested (depth (h ! a) + 1))"
    unfolding eq using a by (simp add: fn_mockImplementation_def)
  show "\<exists>h'. fn_mockReset h a = (None, h') \<and> onceQueue (target (h' ! a)) = []
           \<and> impl (target (h' ! a)) = defaultImpl (target (h ! a))"
    using a by (simp add: fn_mockReset_def clear step_def then_do_def)
qed

lemma installed_reserved: "k \<in> set installed_keys \<Longrightarrow> k \<in> set reserved"
  by (auto simp: installed_keys_def reserved_def)

lemma createMock_ok:
  assumes "d \<le> MAX_DEPTH"
  shows "fst (createMock d h) = VMock (length h)"
    and "length (snd (createMock d h)) = Suc (length h)"
    and "b < length h \<Longrightarrow> snd (createMock d h) ! b = h ! b"
    and "depth (snd (createMock d h) ! length h) = d"
    and "take (length h) (snd (createMock d h)) = h"
  using assms by (simp_all add: createMock_def Let_def nth_append)

lemma createMock_unvisited:
  assumes "d \<le> MAX_DEPTH"
  shows "unvisited (snd (createMock d h)) (length h) d"
proof -
  have "prop_at (snd (createMock d h)) (length h) k = None" if "ordinary k" for k
  proof (rule ccontr)
    assume "prop_at (snd (createMock d h)) (length h) k \<noteq> None"
    then have "k \<in> fst ` set (props (target (snd (createMock d h) ! length h)))"
      by (simp add: prop_at_def map_of_eq_None_iff)
    then have "k \<in> set reserved"
      using createMock_node_keys [OF assms, of h] by (simp add: installed_reserved)
    with that show False by (simp add: ordinary_def)
  qed
  moreover have "recorder_ok (snd (createMock d h)) (length h)"
    using assms
    by (simp add: recorder_ok_def createMock_def Let_def createBaseMock_def install_def
        log_of_def own_def)
  ultimately show ?thesis
    using createMock_ok(2,4) [OF assms, of h] by (simp add: unvisited_def)
qed

lemma get_unvisited:
  assumes u: "unvisited h a d" and k: "ordinary k" and d: "d < MAX_DEPTH"
  shows "\<exists>h'. handler_get h a k = (Inr (VMock (length h)), h') \<and> unvisited h' (length h) (Suc d)"
proof -
  from u have a: "a < length h" and da: "depth (h ! a) = d"
    and none: "prop_at h a k = None"
    using k by (simp_all add: unvisited_def)
  have d1: "Suc d \<le> MAX_DEPTH" using d by simp
  obtain h1 where cm: "createMock (Suc d) h = (VMock (length h), h1)"
    using createMock_ok(1) [OF d1, of h] by (cases "createMock (Suc d) h") simp
  then have h1: "h1 = snd (createMock (Suc d) h)" by simp
  let ?h' = "upd_target h1 a
     (\<lambda>r. r\<lparr>props := AList.update k (VMock (length h)) (props (target (h ! a)))\<rparr>)"
  have get: "handler_get h a k = (Inr (VMock (length h)), ?h')"
    using a da none k
    by (simp add: handler_get_def node_at_def ordinary_def target_get_def target_set_def
        prop_at_def cm)
  have "?h' ! length h = h1 ! length h"
    using a by (simp add: upd_target_def)
  then have "unvisited ?h' (length h) (Suc d)"
    using createMock_unvisited [OF d1, of h]
    by (simp add: unvisited_def prop_at_def h1 recorder_ok_def)
  with get show ?thesis by blast
qed

lemma get_at_max:
  assumes a: "a < length h" and k: "ordinary k" and d: "MAX_DEPTH \<le> depth (h ! a)"
    and p: "prop_at h a k = None \<or> prop_at h a k = Some VUndefined"
  shows "fst (handler_get h a k) = Inr VUndefined"
    and "length (snd (handler_get h a k)) = length h"
  using assms
  by (auto simp: handler_get_def node_at_def ordinary_def target_get_def target_set_def
      prop_at_def createMock_def)

lemma walk_unvisited:
  assumes "unvisited h a d" and "\<forall>k\<in>set ks. ordinary k" and "d + length ks \<le> MAX_DEPTH"
  shows "\<exists>c h'. walk h (VMock a) ks = (Inr (VMock c), h') \<and> unvisited h' c (d + length ks)"
  using assms
proof (induction ks arbitrary: h a d)
  case Nil
  then show ?case by simp
next
  case (Cons k ks)
  have "d < MAX_DEPTH" using Cons.prems(3) by simp
  from get_unvisited [OF Cons.prems(1) _ this, of k] Cons.prems(2)
  obtain h1 where g: "handler_get h a k = (Inr (VMock (length h)), h1)"
    and u1: "unvisited h1 (length h) (Suc d)" by auto
  from Cons.IH [OF u1] Cons.prems(2,3)
  obtain c h' where "walk h1 (VMock (length h)) ks = (Inr (VMock c), h')"
    "unvisited h' c (Suc d + length ks)" by auto
  then show ?case using g by simp
qed

lemma walk_past_max:
  assumes "unvisited h a d" and "\<forall>k\<in>set ks. ordinary k" and "d + length ks = Suc MAX_DEPTH"
    and "d \<le> MAX_DEPTH"
  shows "fst (walk h (VMock a) ks) = Inr VUndefined"
  using assms
proof (induction ks arbitrary: h a d)
  case Nil
  then show ?case by simp
next
  case (Cons k ks)
  show ?case
  proof (cases "d = MAX_DEPTH")
    case True
    then have ks: "ks = []" using Cons.prems(3) by simp
    from Cons.prems(1) have a: "a < length h" and da: "MAX_DEPTH \<le> depth (h ! a)"
      and p: "prop_at h a k = None \<or> prop_at h a k = Some VUndefined"
      using True Cons.prems(2) by (simp_all add: unvisited_def)
    have ok: "ordinary k" using Cons.prems(2) by simp
    obtain r h1 where g: "handler_get h a k = (r, h1)" by (cases "handler_get h a k")
    with get_at_max(1) [OF a ok da p] have "r = Inr VUndefined" by simp
    then show ?thesis using g ks by simp
  next
    case False
    then have lt: "d < MAX_DEPTH" using Cons.prems(4) by simp
    from get_unvisited [OF Cons.prems(1) _ lt, of k] Cons.prems(2)
    obtain h1 where g: "handler_get h a k = (Inr (VMock (length h)), h1)"
      and u1: "unvisited h1 (length h) (Suc d)" by auto
    have "fst (walk h1 (VMock (length h)) ks) = Inr VUndefined"
      using Cons.IH [OF u1] Cons.prems(2,3) lt by simp
    then show ?thesis using g by simp
  qed
qed

lemma createMock_new:
  "d \<le> MAX_DEPTH \<Longrightarrow>
   createMock d h = (VMock (length h), h @ [new_node (length h) d (VFun (Nested (Suc d)))])"
  by (simp add: createMock_def Let_def createBaseMock_def install_def new_node_def new_props_def)

lemma new_props_lookup:
  "map_of (new_props a) (KStr ''mockImplementation'') = Some (VMethod a FnMockImplementation)"
  "map_of (new_props a) (KStr ''mockImplementationOnce'') = Some (VMethod a FnMockImplementationOnce)"
  "map_of (new_props a) (KStr ''mockReturnValue'') = Some (VMethod a BaseMockReturnValue)"
  "map_of (new_props a) (KStr ''mockReturnValueOnce'') = Some (VMethod a BaseMockReturnValueOnce)"
  "map_of (new_props a) (KStr ''mockResolvedValueOnce'') = Some (VMethod a BaseMockResolvedValueOnce)"
  "map_of (new_props a) (KStr ''mockRejectedValueOnce'') = Some (VMethod a BaseMockRejectedValueOnce)"
  "map_of (new_props a) (KStr ''mock'') = Some (VObj [(''calls'', VArr []), (''results'', VArr [])])"
  "map_of (new_props a) (KStr ''mockRestore'') = None"
  by (simp_all add: new_props_def)

lemma new_props_ordinary: "ordinary k \<Longrightarrow> map_of (new_props a) k = None"
  by (auto simp: new_props_def ordinary_def reserved_def map_of_eq_None_iff)

lemma reserved_not_host: "k \<in> set reserved \<Longrightarrow> k \<notin> set host_keys"
  by (auto simp: reserved_def host_keys_def)

lemma get_reserved:
  "a < length h \<Longrightarrow> KStr name \<in> set reserved \<Longrightarrow>
   handler_get h a (KStr name) = (Inr (own (props (target (h ! a))) name), h)"
  by (simp add: handler_get_def node_at_def target_get_def reserved_not_host own_def)

lemma call_own_impl:
  assumes "a < length h" and "props (target (h ! a)) = new_props a"
  shows "call_own h a ''mockImplementation'' f = Inr (fn_mockImplementation h a f)"
    and "call_own h a ''mockImplementationOnce'' f = Inr (fn_mockImplementationOnce h a f)"
  using assms by (simp_all add: call_own_def node_at_def own_def new_props_lookup)

lemma call_method_new:
  assumes a: "a < length h" and p: "props (target (h ! a)) = new_props a"
  shows "call_method h (VMock a) ''mockImplementation'' f = (None, fn_mockImplementation h a f)"
    and "call_method h (VMock a) ''mockReturnValue'' w =
           (None, fn_mockImplementation h a (VFun (Return w)))"
    and "once_closure name w = Some f \<Longrightarrow>
           call_method h (VMock a) name w = (None, fn_mockImplementationOnce h a f)"
proof -
  have r: "KStr ''mockImplementation'' \<in> set reserved" "KStr ''mockReturnValue'' \<in> set reserved"
    "KStr ''mockImplementationOnce'' \<in> set reserved" "KStr ''mockReturnValueOnce'' \<in> set reserved"
    "KStr ''mockResolvedValueOnce'' \<in> set reserved" "KStr ''mockRejectedValueOnce'' \<in> set reserved"
    by (simp_all add: reserved_def)
  show "call_method h (VMock a) ''mockImplementation'' f = (None, fn_mockImplementation h a f)"
    using a by (simp add: call_method_def get_reserved [OF a r(1)] own_def p new_props_lookup)
  show "call_method h (VMock a) ''mockReturnValue'' w =
           (None, fn_mockImplementation h a (VFun (Return w)))"
    by (simp add: call_method_def get_reserved [OF a r(2)] own_def p new_props_lookup
        call_own_impl [OF a p] step_def)
  show "call_method h (VMock a) name w = (None, fn_mockImplementationOnce h a f)"
    if "once_closure name w = Some f"
    using that a
    by (auto simp: once_closure_def call_method_def get_reserved [OF a r(3)]
        get_reserved [OF a r(4)] get_reserved [OF a r(5)] get_reserved [OF a r(6)]
        own_def p new_props_lookup call_own_impl [OF a p] step_def split: if_splits)
qed

lemma reserved_key_cases:
  "KStr k \<in> set reserved \<Longrightarrow> k \<notin> set method_names \<Longrightarrow> k = ''mock'' \<or> k = ''mockRestore''"
  by (auto simp: reserved_def method_names_def)

lemma install_reserved:
  assumes rr: "root_ready h r (k # ks)" and ok: "key_ok k" and res: "KStr k \<in> set reserved"
  shows "install_default h r (k, v) =
     (None, upd_target h r (\<lambda>x. x\<lparr>props := AList.update (KStr k) v (props (target (h ! r)))\<rparr>))"
proof -
  from rr have r: "r < length h"
    and p: "prop_at h r (KStr k) = map_of (new_props r) (KStr k)"
    by (simp_all add: root_ready_def)
  from reserved_key_cases [OF res] ok have "k = ''mock'' \<or> k = ''mockRestore''"
    by (simp add: key_ok_def)
  then have ty: "typeof (own (props (target (h ! r))) k) \<noteq> TFunction"
    using p by (auto simp: own_def prop_at_def new_props_lookup)
  have nh: "KStr k \<notin> set host_keys" using ok by (simp add: key_ok_def)
  show ?thesis
    using r ty nh
    by (simp add: install_default_def get_reserved [OF r res] handler_set_def node_at_def
        target_set_def step_def)
qed

lemma install_ordinary:
  assumes rr: "root_ready h r (k # ks)" and ok: "key_ok k" and res: "KStr k \<notin> set reserved"
  shows "install_default h r (k, v) =
     (None, fn_mockImplementation
        (upd_target (h @ [new_node (length h) (Suc 0) (VFun (Nested 2))]) r
           (\<lambda>x. x\<lparr>props := AList.update (KStr k) (VMock (length h)) (props (target (h ! r)))\<rparr>))
        (length h) (default_impl v))"
proof -
  from rr have r: "r < length h" and d: "depth (h ! r) = 0"
    and p: "prop_at h r (KStr k) = map_of (new_props r) (KStr k)"
    by (simp_all add: root_ready_def)
  have nh: "KStr k \<notin> set host_keys" using ok by (simp add: key_ok_def)
  have ord: "ordinary (KStr k)" using res nh by (simp add: ordinary_def)
  have none: "map_of (props (target (h ! r))) (KStr k) = None"
    using p new_props_ordinary [OF ord] by (simp add: prop_at_def)
  let ?c = "length h"
  let ?h1 = "upd_target (h @ [new_node ?c (Suc 0) (VFun (Nested 2))]) r
           (\<lambda>x. x\<lparr>props := AList.update (KStr k) (VMock ?c) (props (target (h ! r)))\<rparr>)"
  have cm: "createMock (Suc 0) h = (VMock ?c, h @ [new_node ?c (Suc 0) (VFun (Nested 2))])"
    using createMock_new [of 1 h] by (simp add: MAX_DEPTH_def numeral_2_eq_2)
  have get: "handler_get h r (KStr k) = (Inr (VMock ?c), ?h1)"
    using r d none res nh
    by (simp add: handler_get_def node_at_def target_get_def target_set_def cm)
  have c1: "?c < length ?h1" by simp
  have node: "?h1 ! ?c = new_node ?c (Suc 0) (VFun (Nested 2))"
    using r by (simp add: upd_target_def nth_append)
  then have pc: "props (target (?h1 ! ?c)) = new_props ?c" by (simp add: new_node_def)
  show ?thesis
    by (simp add: install_default_def get call_method_new(1,2) [OF c1 pc] default_impl_def)
qed

lemma install_step:
  assumes rr: "root_ready h r (k # ks)" and nk: "k \<notin> set ks" and ok: "key_ok k"
  shows "\<exists>h1. install_default h r (k, v) = (None, h1)
           \<and> installed_ok h1 r k v \<and> root_ready h1 r ks
           \<and> (\<forall>k' v'. k' \<noteq> k \<longrightarrow> installed_ok h r k' v' \<longrightarrow> installed_ok h1 r k' v')"
proof (cases "KStr k \<in> set reserved")
  case True
  from rr have r: "r < length h" by (simp add: root_ready_def)
  let ?h1 = "upd_target h r (\<lambda>x. x\<lparr>props := AList.update (KStr k) v (props (target (h ! r)))\<rparr>)"
  have eq: "install_default h r (k, v) = (None, ?h1)"
    using rr ok True by (rule install_reserved)
  have root: "prop_at ?h1 r (KStr k') = (if k' = k then Some v else prop_at h r (KStr k'))" for k'
    using r by (simp add: prop_at_def update_conv')
  have other: "c < length h \<Longrightarrow> c \<noteq> r \<Longrightarrow> ?h1 ! c = h ! c" for c
    by (simp add: nth_upd_target)
  have dr: "depth (?h1 ! r) = depth (h ! r)" using r by (simp add: nth_upd_target)
  have 1: "installed_ok ?h1 r k v" using True by (simp add: installed_ok_def root)
  have 2: "root_ready ?h1 r ks" using rr nk by (auto simp: root_ready_def root dr)
  have 3: "installed_ok ?h1 r k' v'" if "k' \<noteq> k" "installed_ok h r k' v'" for k' v'
    using that other by (auto simp: installed_ok_def root split: if_splits)
  from eq 1 2 3 show ?thesis by blast
next
  case False
  from rr have r: "r < length h" by (simp add: root_ready_def)
  let ?c = "length h"
  let ?H = "upd_target (h @ [new_node ?c (Suc 0) (VFun (Nested 2))]) r
           (\<lambda>x. x\<lparr>props := AList.update (KStr k) (VMock ?c) (props (target (h ! r)))\<rparr>)"
  let ?h1 = "fn_mockImplementation ?H ?c (default_impl v)"
  have eq: "install_default h r (k, v) = (None, ?h1)"
    using rr ok False by (rule install_ordinary)
  have len: "length ?h1 = Suc (length h)" by (simp add: fn_mockImplementation_def)
  have nr: "?h1 ! r = (h ! r)\<lparr>target := (target (h ! r))
      \<lparr>props := AList.update (KStr k) (VMock ?c) (props (target (h ! r)))\<rparr>\<rparr>"
    using r by (simp add: fn_mockImplementation_def nth_upd_target nth_append)
  have nc: "?h1 ! ?c = new_node ?c (Suc 0) (default_impl v)"
    using r by (simp add: fn_mockImplementation_def nth_upd_target nth_append new_node_def)
  have other: "c < length h \<Longrightarrow> c \<noteq> r \<Longrightarrow> ?h1 ! c = h ! c" for c
    by (simp add: fn_mockImplementation_def nth_upd_target nth_append)
  have root: "prop_at ?h1 r (KStr k') = (if k' = k then Some (VMock ?c) else prop_at h r (KStr k'))"
    for k'
    by (simp add: prop_at_def nr update_conv')
  have 1: "installed_ok ?h1 r k v"
    using False r nc by (auto simp: installed_ok_def root len intro!: exI [of _ ?c])
  have 2: "root_ready ?h1 r ks"
    using rr nk by (auto simp: root_ready_def root nr len)
  have 3: "installed_ok ?h1 r k' v'" if "k' \<noteq> k" "installed_ok h r k' v'" for k' v'
  proof (cases "KStr k' \<in> set reserved")
    case True
    then show ?thesis using that by (simp add: installed_ok_def root)
  next
    case False
    with that obtain c where "c < length h" "c \<noteq> r" "prop_at h r (KStr k') = Some (VMock c)"
      "h ! c = new_node c (Suc 0) (default_impl v')"
      by (auto simp: installed_ok_def)
    then show ?thesis
      using False that(1) other [of c]
      by (auto simp: installed_ok_def root len intro!: exI [of _ c])
  qed
  from eq 1 2 3 show ?thesis by blast
qed

lemma forEach_installs:
  assumes "root_ready h r (map fst ds)" and "distinct (map fst ds)"
    and "\<forall>k\<in>set (map fst ds). key_ok k"
  shows "\<exists>h'. forEach h r ds = (None, h')
           \<and> (\<forall>(k, v)\<in>set ds. installed_ok h' r k v)
           \<and> (\<forall>k v. k \<notin> fst ` set ds \<longrightarrow> installed_ok h r k v \<longrightarrow> installed_ok h' r k v)"
  using assms
proof (induction ds arbitrary: h)
  case Nil
  then show ?case by simp
next
  case (Cons e ds)
  obtain k v where e: "e = (k, v)" by (cases e)
  have rr: "root_ready h r (k # map fst ds)" using Cons.prems(1) by (simp add: e)
  have nk: "k \<notin> set (map fst ds)" using Cons.prems(2) by (simp add: e)
  have ok: "key_ok k" using Cons.prems(3) by (simp add: e)
  from install_step [OF rr nk ok, of v] obtain h1 where
    i: "install_default h r (k, v) = (None, h1)"
    and i1: "installed_ok h1 r k v" and i2: "root_ready h1 r (map fst ds)"
    and i3: "\<And>k' v'. k' \<noteq> k \<Longrightarrow> installed_ok h r k' v' \<Longrightarrow> installed_ok h1 r k' v'"
    by blast
  from Cons.IH [OF i2] Cons.prems(2,3) obtain h' where
    f: "forEach h1 r ds = (None, h')"
    and f1: "\<forall>(k, v)\<in>set ds. installed_ok h' r k v"
    and f2: "\<And>k v. k \<notin> fst ` set ds \<Longrightarrow> installed_ok h1 r k v \<Longrightarrow> installed_ok h' r k v"
    by auto
  have "forEach h r (e # ds) = (None, h')" by (simp add: e i f then_do_def)
  moreover have "installed_ok h' r k v" using nk i1 by (intro f2) simp_all
  moreover have "installed_ok h' r k' v'"
    if "k' \<notin> fst ` set (e # ds)" "installed_ok h r k' v'" for k' v'
    using that by (intro f2 i3) (simp_all add: e)
  ultimately show ?case using f1 by (auto simp: e)
qed

lemma truthy_default_impl: "truthy (default_impl v)"
  by (cases v) (simp_all add: default_impl_def)

lemma new_node_ok: "c < length h \<Longrightarrow> h ! c = new_node c d f \<Longrightarrow> recorder_ok h c"
  by (simp add: recorder_ok_def new_node_def new_props_def log_of_def own_def)

lemma child_serves:
  assumes c: "c < length h" and n: "h ! c = new_node c d f" and t: "truthy f"
  shows "isMock h (VMock c) = Inr True"
    and "impl (target (h ! c)) = f"
    and "fst (fn U h c args) = fst (call_behaviour U f args h)"
    and "once_closure name w = Some (VFun b) \<Longrightarrow>
          \<exists>h1. call_method h (VMock c) name w = (None, h1)
             \<and> fst (fn U h1 c x1) = fst (call_behaviour U (VFun b) x1 h1)
             \<and> fst (fn U (snd (fn U h1 c x1)) c x2) =
                 fst (call_behaviour U f x2 (snd (fn U h1 c x1)))"
proof -
  have ok: "recorder_ok h c" using c n by (rule new_node_ok)
  show "isMock h (VMock c) = Inr True" using ok by (simp add: isMock_iff)
  show i: "impl (target (h ! c)) = f" by (simp add: n new_node_def)
  have q: "onceQueue (target (h ! c)) = []" by (simp add: n new_node_def)
  show "fst (fn U h c args) = fst (call_behaviour U f args h)"
    using t by (simp add: fn_result [OF ok] toCall_default [OF q] i)
  show "\<exists>h1. call_method h (VMock c) name w = (None, h1)
             \<and> fst (fn U h1 c x1) = fst (call_behaviour U (VFun b) x1 h1)
             \<and> fst (fn U (snd (fn U h1 c x1)) c x2) =
                 fst (call_behaviour U f x2 (snd (fn U h1 c x1)))"
    if once: "once_closure name w = Some (VFun b)"
  proof -
    let ?h1 = "fn_mockImplementationOnce h c (VFun b)"
    let ?h2 = "snd (fn U ?h1 c x1)"
    have p: "props (target (h ! c)) = new_props c" by (simp add: n new_node_def)
    have cm: "call_method h (VMock c) name w = (None, ?h1)"
      using c p once by (rule call_method_new(3))
    have ok1: "recorder_ok ?h1 c" using ok by (rule once_ok)
    have q1: "onceQueue (target (?h1 ! c)) = [VFun b]"
      by (simp add: once_fields [OF c] q)
    have i1: "impl (target (?h1 ! c)) = f" by (simp add: once_fields [OF c] i)
    have first: "fst (fn U ?h1 c x1) = fst (call_behaviour U (VFun b) x1 ?h1)"
      using ok1 q1 by (intro fn_closure toCall_queued)
    have ok2: "recorder_ok ?h2 c" using ok1 by (rule fn_keeps_ok)
    have q2: "onceQueue (target (?h2 ! c)) = []" by (simp add: fn_queue [OF ok1] q1)
    have i2: "impl (target (?h2 ! c)) = f" by (simp add: fn_queue [OF ok1] i1)
    have second: "fst (fn U ?h2 c x2) = fst (call_behaviour U f x2 ?h2)"
      using t by (simp add: fn_result [OF ok2] toCall_default [OF q2] i2)
    from cm first second show ?thesis by blast
  qed
qed

section \<open>The claims\<close>

text \<open>
  C1 as stated fails for the keys the \<^verbatim>\<open>get\<close> trap answers from the function object
  itself: the read of \<^verbatim>\<open>mock\<close> on a new root gives the log record, not a child node.
\<close>

theorem read_of_reserved_key_is_no_child:
  "walk (snd (createMock 0 [])) (VMock 0) [KStr ''mock''] =
     (Inr (VObj [(''calls'', VArr []), (''results'', VArr [])]), snd (createMock 0 []))"
  by code_simp

text \<open>
  C1, as the code has it. A key is ordinary when it is a string that is neither one of
  the twelve reserved names nor a built-in member of function objects. Starting at the
  root that \<^verbatim>\<open>createMock()\<close> returns, a chain of reads of ordinary keys of length at most
  10 ends in a child mock whose depth is the length of the chain and which \<open>isMock\<close>
  recognises; a chain of length 11 ends in \<^verbatim>\<open>undefined\<close>. On any node at depth 10 or more,
  the read of an ordinary key that holds nothing returns \<^verbatim>\<open>undefined\<close>, raises nothing
  and creates no node.
\<close>

theorem reads_bounded_by_depth:
  assumes ks: "\<forall>k\<in>set ks. ordinary k"
  shows "(length ks \<le> MAX_DEPTH \<longrightarrow>
           (\<exists>c h'. walk (snd (createMock 0 h)) (VMock (length h)) ks = (Inr (VMock c), h')
              \<and> c < length h' \<and> depth (h' ! c) = length ks
              \<and> isMock h' (VMock c) = Inr True))
       \<and> (length ks = Suc MAX_DEPTH \<longrightarrow>
            fst (walk (snd (createMock 0 h)) (VMock (length h)) ks) = Inr VUndefined)
       \<and> (a < length g \<and> ordinary k \<and> MAX_DEPTH \<le> depth (g ! a)
            \<and> (prop_at g a k = None \<or> prop_at g a k = Some VUndefined) \<longrightarrow>
            fst (handler_get g a k) = Inr VUndefined
            \<and> length (snd (handler_get g a k)) = length g)"
proof (intro conjI impI)
  have root: "unvisited (snd (createMock 0 h)) (length h) 0"
    by (rule createMock_unvisited) simp
  {
    assume "length ks \<le> MAX_DEPTH"
    with walk_unvisited [OF root ks] obtain c h' where
      "walk (snd (createMock 0 h)) (VMock (length h)) ks = (Inr (VMock c), h')"
      "unvisited h' c (length ks)" by auto
    then show "\<exists>c h'. walk (snd (createMock 0 h)) (VMock (length h)) ks = (Inr (VMock c), h')
              \<and> c < length h' \<and> depth (h' ! c) = length ks
              \<and> isMock h' (VMock c) = Inr True"
      by (auto simp: unvisited_def isMock_iff)
  }
  {
    assume "length ks = Suc MAX_DEPTH"
    then show "fst (walk (snd (createMock 0 h)) (VMock (length h)) ks) = Inr VUndefined"
      using walk_past_max [OF root ks] by simp
  }
  assume "a < length g \<and> ordinary k \<and> MAX_DEPTH \<le> depth (g ! a)
            \<and> (prop_at g a k = None \<or> prop_at g a k = Some VUndefined)"
  then show "fst (handler_get g a k) = Inr VUndefined"
    "length (snd (handler_get g a k)) = length g"
    using get_at_max [of a g k] by simp_all
qed

theorem reads_bounded_by_depth_witness:
  "(\<exists>c h'. walk (snd (createMock 0 [])) (VMock (length ([] :: heap))) [KStr ''a'', KStr ''b'']
              = (Inr (VMock c), h')
        \<and> c < length h' \<and> depth (h' ! c) = length [KStr ''a'', KStr ''b'']
        \<and> isMock h' (VMock c) = Inr True)
   \<and> fst (walk (snd (createMock 0 [])) (VMock (length ([] :: heap))) (replicate 11 (KStr ''next'')))
       = Inr VUndefined
   \<and> (fst (handler_get (snd (createMock 10 [])) 0 (KStr ''x'')) = Inr VUndefined
      \<and> length (snd (handler_get (snd (createMock 10 [])) 0 (KStr ''x'')))
          = length (snd (createMock 10 [])))"
proof -
  have o1: "\<forall>k\<in>set [KStr ''a'', KStr ''b'']. ordinary k"
    by (simp add: ordinary_def reserved_def host_keys_def)
  have l1: "length [KStr ''a'', KStr ''b''] \<le> MAX_DEPTH" by (simp add: MAX_DEPTH_def)
  have o2: "\<forall>k\<in>set (replicate 11 (KStr ''next'')). ordinary k"
    by (simp add: ordinary_def reserved_def host_keys_def)
  have l2: "length (replicate 11 (KStr ''next'')) = Suc MAX_DEPTH" by (simp add: MAX_DEPTH_def)
  have p3: "0 < length (snd (createMock 10 [])) \<and> ordinary (KStr ''x'')
      \<and> MAX_DEPTH \<le> depth (snd (createMock 10 []) ! 0)
      \<and> (prop_at (snd (createMock 10 [])) 0 (KStr ''x'') = None
         \<or> prop_at (snd (createMock 10 [])) 0 (KStr ''x'') = Some VUndefined)"
    by code_simp
  note t1 = mp [OF conjunct1 [OF reads_bounded_by_depth [OF o1, where h = "[]"]] l1]
  note t2 = mp [OF conjunct1 [OF conjunct2 [OF reads_bounded_by_depth [OF o2, where h = "[]"]]] l2]
  note t3 = mp [OF conjunct2 [OF conjunct2 [OF reads_bounded_by_depth [OF o1,
      where a = 0 and g = "snd (createMock 10 [])" and k = "KStr ''x''"]]] p3]
  show ?thesis by (rule conjI [OF t1 conjI [OF t2 t3]])
qed

text \<open>
  C2 fails on the code: \<^verbatim>\<open>baseMock.mockReset\<close> (lines 210 to 214), the one a mock made by
  \<^verbatim>\<open>createMock\<close> answers with, clears the logs and sets the default implementation but
  leaves the one-shot queue alone, where \<^verbatim>\<open>fn.mockReset\<close> (lines 45 to 50) empties it. A
  value queued with \<^verbatim>\<open>mockReturnValueOnce\<close> before \<^verbatim>\<open>mockReset()\<close> is still in the queue
  afterwards and is what the next call returns.
\<close>

theorem mockReset_keeps_queued_one_shot:
  "(case call_method (snd (createMock 0 [])) (VMock 0) ''mockReturnValueOnce'' (VStr ''once'') of
      (None, h1) \<Rightarrow>
        (case call_method h1 (VMock 0) ''mockReset'' VUndefined of
           (None, h2) \<Rightarrow>
             onceQueue (target (h2 ! 0)) = [VFun (Return (VStr ''once''))]
             \<and> fst (fn (\<lambda>g args. Inr VUndefined) h2 0 []) = Inr (VStr ''once'')
         | (Some e, h2) \<Rightarrow> False)
    | (Some e, h1) \<Rightarrow> False)"
  by code_simp

text \<open>
  C3. On a node that \<open>isMock\<close> recognises, with an empty one-shot queue and a default
  implementation \<open>D\<close>: after \<^verbatim>\<open>mockImplementationOnce(B1)\<close> and
  \<^verbatim>\<open>mockImplementationOnce(B2)\<close> the first call gives what \<open>B1\<close> gives on its arguments, the
  second what \<open>B2\<close> gives, and after any number of further calls the next call gives what
  \<open>D\<close> gives.
\<close>

theorem one_shot_fifo:
  fixes h :: heap and U :: "nat \<Rightarrow> val list \<Rightarrow> val + val" and B1 B2 D :: behaviour
    and x1 x2 x :: "val list"
  assumes m: "isMock h (VMock a) = Inr True"
    and q: "onceQueue (target (h ! a)) = []"
    and d: "impl (target (h ! a)) = VFun D"
  defines "h1 \<equiv> fn_mockImplementationOnce (fn_mockImplementationOnce h a (VFun B1)) a (VFun B2)"
  defines "h2 \<equiv> snd (fn U h1 a x1)"
  defines "h3 \<equiv> snd (fn U h2 a x2)"
  shows "fst (fn U h1 a x1) = fst (call_behaviour U (VFun B1) x1 h1)
       \<and> fst (fn U h2 a x2) = fst (call_behaviour U (VFun B2) x2 h2)
       \<and> fst (fn U (fn_many U h3 a xs) a x) = fst (call_behaviour U (VFun D) x (fn_many U h3 a xs))"
proof -
  from m have ok: "recorder_ok h a" by (simp add: isMock_iff)
  then have a: "a < length h" by (simp add: recorder_ok_def)
  let ?h0 = "fn_mockImplementationOnce h a (VFun B1)"
  have a0: "a < length ?h0" using a by (simp add: fn_mockImplementationOnce_def)
  have ok1: "recorder_ok h1 a" unfolding h1_def by (intro once_ok ok)
  have q1: "onceQueue (target (h1 ! a)) = [VFun B1, VFun B2]"
    unfolding h1_def by (simp add: once_fields [OF a0] once_fields [OF a] q)
  have d1: "impl (target (h1 ! a)) = VFun D"
    unfolding h1_def by (simp add: once_fields [OF a0] once_fields [OF a] d)
  have first: "fst (fn U h1 a x1) = fst (call_behaviour U (VFun B1) x1 h1)"
    using ok1 q1 by (intro fn_closure toCall_queued)
  have ok2: "recorder_ok h2 a" unfolding h2_def using ok1 by (rule fn_keeps_ok)
  have q2: "onceQueue (target (h2 ! a)) = [VFun B2]"
    unfolding h2_def by (simp add: fn_queue [OF ok1] q1)
  have d2: "impl (target (h2 ! a)) = VFun D"
    unfolding h2_def by (simp add: fn_queue [OF ok1] d1)
  have second: "fst (fn U h2 a x2) = fst (call_behaviour U (VFun B2) x2 h2)"
    using ok2 q2 by (intro fn_closure toCall_queued)
  have ok3: "recorder_ok h3 a" unfolding h3_def using ok2 by (rule fn_keeps_ok)
  have q3: "onceQueue (target (h3 ! a)) = []"
    unfolding h3_def by (simp add: fn_queue [OF ok2] q2)
  have d3: "impl (target (h3 ! a)) = VFun D"
    unfolding h3_def by (simp add: fn_queue [OF ok2] d2)
  let ?h4 = "fn_many U h3 a xs"
  from fn_many_default [OF ok3 q3, of U xs]
  have ok4: "recorder_ok ?h4 a" and q4: "onceQueue (target (?h4 ! a)) = []"
    and d4: "impl (target (?h4 ! a)) = VFun D"
    by (simp_all add: d3)
  have later: "fst (fn U ?h4 a x) = fst (call_behaviour U (VFun D) x ?h4)"
    using ok4 by (rule fn_closure) (simp add: toCall_default [OF q4] d4)
  from first second later show ?thesis by simp
qed

theorem one_shot_fifo_witness:
  "isMock (fn_mockImplementation (snd (createMock 0 [])) 0 (VFun (Return (VStr ''d'')))) (VMock 0)
     = Inr True
   \<and> fst (fn (\<lambda>g args. Inr (VArr args))
        (fn_mockImplementationOnce (fn_mockImplementationOnce
           (fn_mockImplementation (snd (createMock 0 [])) 0 (VFun (Return (VStr ''d''))))
           0 (VFun (Return (VStr ''b1'')))) 0 (VFun (User 0))) 0 [VNum 1]) = Inr (VStr ''b1'')
   \<and> fst (fn (\<lambda>g args. Inr (VArr args))
        (snd (fn (\<lambda>g args. Inr (VArr args))
           (fn_mockImplementationOnce (fn_mockImplementationOnce
              (fn_mockImplementation (snd (createMock 0 [])) 0 (VFun (Return (VStr ''d''))))
              0 (VFun (Return (VStr ''b1'')))) 0 (VFun (User 0))) 0 [VNum 1]))
        0 [VNum 2]) = Inr (VArr [VNum 2])
   \<and> fst (fn (\<lambda>g args. Inr (VArr args))
        (fn_many (\<lambda>g args. Inr (VArr args))
          (snd (fn (\<lambda>g args. Inr (VArr args))
            (snd (fn (\<lambda>g args. Inr (VArr args))
               (fn_mockImplementationOnce (fn_mockImplementationOnce
                  (fn_mockImplementation (snd (createMock 0 [])) 0 (VFun (Return (VStr ''d''))))
                  0 (VFun (Return (VStr ''b1'')))) 0 (VFun (User 0))) 0 [VNum 1]))
            0 [VNum 2]))
          0 [[VNum 3], [VNum 4]])
        0 [VNum 5]) = Inr (VStr ''d'')"
proof -
  let ?h = "fn_mockImplementation (snd (createMock 0 [])) 0 (VFun (Return (VStr ''d'')))"
  have m: "isMock ?h (VMock 0) = Inr True" by code_simp
  have q: "onceQueue (target (?h ! 0)) = []" by code_simp
  have d: "impl (target (?h ! 0)) = VFun (Return (VStr ''d''))" by code_simp
  show ?thesis
    using one_shot_fifo [OF m q d, of "\<lambda>g args. Inr (VArr args)" "Return (VStr ''b1'')" "User 0"
        "[VNum 1]" "[VNum 2]" "[[VNum 3], [VNum 4]]" "[VNum 5]"] m
    unfolding call_behaviour_def fn_many.simps by simp
qed





text \<open>
  C6 as stated fails when the value written is \<^verbatim>\<open>undefined\<close>: the \<^verbatim>\<open>get\<close> trap takes an
  \<^verbatim>\<open>undefined\<close> property for one that is not there, so the read materialises a child mock
  and returns it.
\<close>

theorem write_undefined_read_gives_child:
  "(case handler_set (snd (createMock 0 [])) 0 (KStr ''x'') VUndefined of
      Inr h \<Rightarrow> fst (handler_get h 0 (KStr ''x'')) = Inr (VMock 1)
    | Inl e \<Rightarrow> False)"
  by code_simp

text \<open>
  C6, as the code has it. After a write of \<open>v\<close> to a key of a node, a read of that key
  returns \<open>v\<close> and changes nothing, if \<open>v\<close> is not \<^verbatim>\<open>undefined\<close>, or the key is a reserved
  name or a symbol, or the node is at the maximum depth.
\<close>

theorem read_after_write:
  assumes set: "handler_set h a k v = Inr h1"
    and c: "v \<noteq> VUndefined \<or> k \<in> set reserved \<or> is_symbol k \<or> MAX_DEPTH \<le> depth (h ! a)"
  shows "handler_get h1 a k = (Inr v, h1)"
proof -
  note s = handler_set_Inr [OF set]
  have a1: "a < length h1" using s(1) by (simp add: s(3))
  have p: "map_of (props (target (h1 ! a))) k = Some v"
    using s(1) by (simp add: s(3) update_conv')
  have d: "depth (h1 ! a) = depth (h ! a)" using s(1) by (simp add: s(3) upd_target_def)
  have same: "upd_target h1 a (\<lambda>r. r\<lparr>props := AList.update k v (props (target (h1 ! a)))\<rparr>) = h1"
    using a1 update_triv [OF p] by (simp add: upd_target_def list_update_same_conv)
  show ?thesis
    using a1 s(2) p d same c
    by (auto simp: handler_get_def node_at_def target_get_def target_set_def createMock_def
        Let_def)
qed

theorem read_after_write_witness:
  "handler_set (snd (createMock 0 [])) 0 (KStr ''x'') (VNum 5) =
     Inr (projr (handler_set (snd (createMock 0 [])) 0 (KStr ''x'') (VNum 5)))
   \<and> handler_get (projr (handler_set (snd (createMock 0 [])) 0 (KStr ''x'') (VNum 5)))
        0 (KStr ''x'') =
      (Inr (VNum 5), projr (handler_set (snd (createMock 0 [])) 0 (KStr ''x'') (VNum 5)))"
proof -
  let ?h = "snd (createMock 0 [])"
  have set: "handler_set ?h 0 (KStr ''x'') (VNum 5) =
      Inr (projr (handler_set ?h 0 (KStr ''x'') (VNum 5)))"
    by code_simp
  have c: "VNum 5 \<noteq> VUndefined \<or> KStr ''x'' \<in> set reserved \<or> is_symbol (KStr ''x'')
      \<or> MAX_DEPTH \<le> depth (?h ! 0)"
    by simp
  from set read_after_write [OF set c] show ?thesis by (rule conjI)
qed




text \<open>
  C8. On a node that \<open>isMock\<close> recognises, \<^verbatim>\<open>mockClear()\<close> succeeds and empties both logs
  (the call summary read afterwards counts no call and has no last call and no last
  result), leaves the default implementation and the one-shot queue as they were, and a
  call made right after it gives what the same call would have given before it.
\<close>

theorem mockClear_keeps_behaviour:
  assumes "isMock h (VMock a) = Inr True"
  shows "\<exists>h'. mockClear h a = Inr h'
           \<and> getCallInfo h' (VMock a) =
               Inr \<lparr>callCount = 0, calls = [], results = [], lastCall = VArr [],
                    lastResult = VObj [(''type'', VStr ''return''), (''value'', VUndefined)]\<rparr>
           \<and> impl (target (h' ! a)) = impl (target (h ! a))
           \<and> onceQueue (target (h' ! a)) = onceQueue (target (h ! a))
           \<and> (\<forall>U args. fst (fn U h' a args) = fst (fn U h a args))"
proof -
  from assms have ok: "recorder_ok h a" by (simp add: isMock_iff)
  then have a: "a < length h" by (simp add: recorder_ok_def)
  from recorder_ok_mock [OF ok] obtain fs where
    fs: "own (props (target (h ! a))) ''mock'' = VObj fs" by blast
  let ?h' = "upd_target h a (\<lambda>r. r\<lparr>props :=
           AList.update (KStr ''mock'')
             (VObj (AList.update ''results'' (VArr []) (AList.update ''calls'' (VArr []) fs)))
             (props r)\<rparr>)"
  have clear: "mockClear h a = Inr ?h'" by (rule mockClear_ok [OF a fs])
  have cs: "log_of (props (target (?h' ! a))) ''calls'' = Some []"
    and rs: "log_of (props (target (?h' ! a))) ''results'' = Some []"
    using a by (simp_all add: log_of_def update_conv')
  have ok': "recorder_ok ?h' a" using a cs rs by (simp add: recorder_ok_def)
  have tc: "toCall (target (?h' ! a)) = toCall (target (h ! a))"
    using a by (intro toCall_cong) simp_all
  have info: "getCallInfo ?h' (VMock a) =
      Inr \<lparr>callCount = 0, calls = [], results = [], lastCall = VArr [],
           lastResult = VObj [(''type'', VStr ''return''), (''value'', VUndefined)]\<rparr>"
    using getCallInfo_ok [OF _ cs rs] a by (simp add: at_index_def or_else_def entry_def)
  have len: "length ?h' = length h" by simp
  have call: "fst (fn U ?h' a args) = fst (fn U h a args)" for U args
    unfolding fn_result [OF ok] fn_result [OF ok'] tc
    using call_behaviour_length [OF len] by simp
  have same: "impl (target (?h' ! a)) = impl (target (h ! a))"
     "onceQueue (target (?h' ! a)) = onceQueue (target (h ! a))"
    using a by simp_all
  show ?thesis
  proof (intro exI [of _ ?h'] conjI allI)
    show "mockClear h a = Inr ?h'" by (rule clear)
    show "getCallInfo ?h' (VMock a) =
      Inr \<lparr>callCount = 0, calls = [], results = [], lastCall = VArr [],
           lastResult = VObj [(''type'', VStr ''return''), (''value'', VUndefined)]\<rparr>"
      by (rule info)
    show "impl (target (?h' ! a)) = impl (target (h ! a))" by (rule same)
    show "onceQueue (target (?h' ! a)) = onceQueue (target (h ! a))" by (rule same)
    show "fst (fn U ?h' a args) = fst (fn U h a args)" for U args by (rule call)
  qed
qed

theorem mockClear_keeps_behaviour_witness:
  "\<exists>h'. mockClear (fn_mockImplementation (snd (createMock 0 [])) 0 (VFun (Return (VNum 7)))) 0 = Inr h'
      \<and> fst (fn (\<lambda>f args. Inr VNull) h' 0 []) = Inr (VNum 7)"
proof -
  let ?h = "fn_mockImplementation (snd (createMock 0 [])) 0 (VFun (Return (VNum 7)))"
  have m: "isMock ?h (VMock 0) = Inr True" by code_simp
  have r: "fst (fn (\<lambda>f args. Inr VNull) ?h 0 []) = Inr (VNum 7)" by code_simp
  from mockClear_keeps_behaviour [OF m] r show ?thesis by auto
qed

text \<open>
  C9 fails on the code: \<^verbatim>\<open>typeof null\<close> is \<^verbatim>\<open>'object'\<close>, so on a function whose \<^verbatim>\<open>mock\<close>
  property is \<^verbatim>\<open>null\<close> the test \<^verbatim>\<open>isMock\<close> goes on to read \<^verbatim>\<open>value.mock.calls\<close> and the
  host raises; \<^verbatim>\<open>getCallInfo\<close> passes that error on instead of raising its own.
\<close>

theorem isMock_raises_on_null_mock:
  "(case handler_set (snd (createMock 0 [])) 0 (KStr ''mock'') VNull of
      Inr h \<Rightarrow> isMock h (VMock 0) = Inl HostTypeError
               \<and> getCallInfo h (VMock 0) = Inl HostTypeError
    | Inl e \<Rightarrow> False)"
  by code_simp

text \<open>
  C10 as stated fails for a key that names one of the configuration methods: the value
  read under it is the installed closure, a function without a \<^verbatim>\<open>mockImplementation\<close>
  member, and calling that member raises out of \<^verbatim>\<open>createMockWithDefaults\<close>.
\<close>

theorem defaults_for_method_name_raise:
  "fst (createMockWithDefaults (Some [(''mockClear'', VFun (User 0))]) []) = Inl HostTypeError"
  by code_simp

text \<open>
  C10, as the code has it. For a defaults map whose keys are neither names of the ten
  installed configuration methods nor built-in members of function objects,
  \<^verbatim>\<open>createMockWithDefaults\<close> returns the new root, and for each entry \<open>(k, v)\<close>: if \<open>k\<close> is
  \<^verbatim>\<open>mock\<close> or \<^verbatim>\<open>mockRestore\<close>, where the read gives no function, the key holds \<open>v\<close>;
  otherwise the key holds a child mock that \<open>isMock\<close> recognises, whose default
  implementation is \<open>v\<close> if \<open>v\<close> is a function and \<^verbatim>\<open>() => v\<close> if not, so that a call of
  the child gives what that implementation gives on the arguments; and after a one-shot
  configuration of the child that queues a closure, the next call gives what that
  closure gives and the call after it what the installed default gives.
\<close>

theorem defaults_installed:
  assumes d: "distinct (map fst ds)"
    and k: "\<forall>k\<in>set (map fst ds). KStr k \<notin> set host_keys \<and> k \<notin> set method_names"
  shows "\<exists>h'. createMockWithDefaults (Some ds) h = (Inr (VMock (length h)), h')
     \<and> (\<forall>(k, v)\<in>set ds.
          if KStr k \<in> set reserved
          then fst (handler_get h' (length h) (KStr k)) = Inr v
          else (\<exists>c. handler_get h' (length h) (KStr k) = (Inr (VMock c), h')
                 \<and> isMock h' (VMock c) = Inr True
                 \<and> impl (target (h' ! c)) = default_impl v
                 \<and> (\<forall>U args. fst (fn U h' c args) = fst (call_behaviour U (default_impl v) args h'))
                 \<and> (\<forall>U name w b x1 x2. once_closure name w = Some (VFun b) \<longrightarrow>
                       (\<exists>h1. call_method h' (VMock c) name w = (None, h1)
                          \<and> fst (fn U h1 c x1) = fst (call_behaviour U (VFun b) x1 h1)
                          \<and> fst (fn U (snd (fn U h1 c x1)) c x2) =
                              fst (call_behaviour U (default_impl v) x2 (snd (fn U h1 c x1)))))))"
proof -
  let ?r = "length h"
  let ?h0 = "h @ [new_node ?r 0 (VFun (Nested (Suc 0)))]"
  have cm: "createMock 0 h = (VMock ?r, ?h0)" by (rule createMock_new) simp
  have rr: "root_ready ?h0 ?r (map fst ds)"
    by (simp add: root_ready_def prop_at_def new_node_def)
  have ok: "\<forall>k\<in>set (map fst ds). key_ok k" using k by (simp add: key_ok_def)
  from forEach_installs [OF rr d ok] obtain h' where
    f: "forEach ?h0 ?r ds = (None, h')"
    and inst: "\<forall>(k, v)\<in>set ds. installed_ok h' ?r k v" by blast
  have eq: "createMockWithDefaults (Some ds) h = (Inr (VMock ?r), h')"
    by (simp add: createMockWithDefaults_def cm f)
  have "length ?h0 \<le> length h'"
    using frame_forEach [of ?r ds ?h0] f by (auto dest: frame_len)
  then have r: "?r < length h'" by simp
  have each: "if KStr k \<in> set reserved
          then fst (handler_get h' ?r (KStr k)) = Inr v
          else (\<exists>c. handler_get h' ?r (KStr k) = (Inr (VMock c), h')
                 \<and> isMock h' (VMock c) = Inr True
                 \<and> impl (target (h' ! c)) = default_impl v
                 \<and> (\<forall>U args. fst (fn U h' c args) = fst (call_behaviour U (default_impl v) args h'))
                 \<and> (\<forall>U name w b x1 x2. once_closure name w = Some (VFun b) \<longrightarrow>
                       (\<exists>h1. call_method h' (VMock c) name w = (None, h1)
                          \<and> fst (fn U h1 c x1) = fst (call_behaviour U (VFun b) x1 h1)
                          \<and> fst (fn U (snd (fn U h1 c x1)) c x2) =
                              fst (call_behaviour U (default_impl v) x2 (snd (fn U h1 c x1))))))"
    if kv: "(k, v) \<in> set ds" for k v
  proof (cases "KStr k \<in> set reserved")
    case True
    from inst kv have "installed_ok h' ?r k v" by blast
    with True have "prop_at h' ?r (KStr k) = Some v" by (simp add: installed_ok_def)
    then show ?thesis
      using True by (simp add: get_reserved [OF r True] own_def prop_at_def)
  next
    case False
    from inst kv have "installed_ok h' ?r k v" by blast
    with False obtain c where c: "c < length h'"
      and p: "prop_at h' ?r (KStr k) = Some (VMock c)"
      and n: "h' ! c = new_node c (Suc 0) (default_impl v)"
      by (auto simp: installed_ok_def)
    have nh: "KStr k \<notin> set host_keys" using k kv by force
    have g: "handler_get h' ?r (KStr k) = (Inr (VMock c), h')"
      using r nh p by (rule handler_get_cached) simp
    note s = child_serves [OF c n truthy_default_impl]
    show ?thesis
      using False g s(1,2,3) s(4) by auto
  qed
  from eq each show ?thesis by blast
qed

theorem defaults_installed_witness:
  "\<exists>h' c c2 h1.
     createMockWithDefaults
       (Some [(''getUser'', VFun (User 0)), (''count'', VNum 3), (''mock'', VNum 1)]) []
       = (Inr (VMock (length ([] :: heap))), h')
     \<and> handler_get h' (length ([] :: heap)) (KStr ''getUser'') = (Inr (VMock c), h')
     \<and> fst (fn (\<lambda>g args. Inr (VArr args)) h' c [VStr ''1'']) = Inr (VArr [VStr ''1''])
     \<and> call_method h' (VMock c) ''mockResolvedValueOnce'' (VNum 9) = (None, h1)
     \<and> fst (fn (\<lambda>g args. Inr (VArr args)) h1 c [VStr ''2'']) = Inr (VPromiseResolve (VNum 9))
     \<and> fst (fn (\<lambda>g args. Inr (VArr args)) (snd (fn (\<lambda>g args. Inr (VArr args)) h1 c [VStr ''2'']))
           c [VStr ''3'']) = Inr (VArr [VStr ''3''])
     \<and> handler_get h' (length ([] :: heap)) (KStr ''count'') = (Inr (VMock c2), h')
     \<and> fst (fn (\<lambda>g args. Inr (VArr args)) h' c2 []) = Inr (VNum 3)
     \<and> fst (handler_get h' (length ([] :: heap)) (KStr ''mock'')) = Inr (VNum 1)"
proof -
  let ?ds = "[(''getUser'', VFun (User 0)), (''count'', VNum 3), (''mock'', VNum 1)]"
  let ?U = "\<lambda>g args. Inr (VArr args) :: val + val"
  let ?r = "length ([] :: heap)"
  have d: "distinct (map fst ?ds)" by simp
  have k: "\<forall>k\<in>set (map fst ?ds). KStr k \<notin> set host_keys \<and> k \<notin> set method_names"
    by (simp add: host_keys_def method_names_def)
  from defaults_installed [OF d k, of "[]"] obtain h' where
    eq: "createMockWithDefaults (Some ?ds) [] = (Inr (VMock ?r), h')"
    and all: "\<forall>(k, v)\<in>set ?ds.
          if KStr k \<in> set reserved
          then fst (handler_get h' ?r (KStr k)) = Inr v
          else (\<exists>c. handler_get h' ?r (KStr k) = (Inr (VMock c), h')
                 \<and> isMock h' (VMock c) = Inr True
                 \<and> impl (target (h' ! c)) = default_impl v
                 \<and> (\<forall>U args. fst (fn U h' c args) = fst (call_behaviour U (default_impl v) args h'))
                 \<and> (\<forall>U name w b x1 x2. once_closure name w = Some (VFun b) \<longrightarrow>
                       (\<exists>h1. call_method h' (VMock c) name w = (None, h1)
                          \<and> fst (fn U h1 c x1) = fst (call_behaviour U (VFun b) x1 h1)
                          \<and> fst (fn U (snd (fn U h1 c x1)) c x2) =
                              fst (call_behaviour U (default_impl v) x2 (snd (fn U h1 c x1))))))"
    by (elim exE conjE)
  have m: "(''getUser'', VFun (User 0)) \<in> set ?ds" "(''count'', VNum 3) \<in> set ?ds"
    "(''mock'', VNum 1) \<in> set ?ds" by simp_all
  have getUser: "if KStr ''getUser'' \<in> set reserved
          then fst (handler_get h' ?r (KStr ''getUser'')) = Inr (VFun (User 0))
          else (\<exists>c. handler_get h' ?r (KStr ''getUser'') = (Inr (VMock c), h')
                 \<and> isMock h' (VMock c) = Inr True
                 \<and> impl (target (h' ! c)) = default_impl (VFun (User 0))
                 \<and> (\<forall>U args. fst (fn U h' c args) =
                       fst (call_behaviour U (default_impl (VFun (User 0))) args h'))
                 \<and> (\<forall>U name w b x1 x2. once_closure name w = Some (VFun b) \<longrightarrow>
                       (\<exists>h1. call_method h' (VMock c) name w = (None, h1)
                          \<and> fst (fn U h1 c x1) = fst (call_behaviour U (VFun b) x1 h1)
                          \<and> fst (fn U (snd (fn U h1 c x1)) c x2) =
                              fst (call_behaviour U (default_impl (VFun (User 0))) x2
                                     (snd (fn U h1 c x1))))))"
    using bspec [OF all m(1)] by (simp only: prod.case)
  have count: "if KStr ''count'' \<in> set reserved
          then fst (handler_get h' ?r (KStr ''count'')) = Inr (VNum 3)
          else (\<exists>c. handler_get h' ?r (KStr ''count'') = (Inr (VMock c), h')
                 \<and> isMock h' (VMock c) = Inr True
                 \<and> impl (target (h' ! c)) = default_impl (VNum 3)
                 \<and> (\<forall>U args. fst (fn U h' c args) =
                       fst (call_behaviour U (default_impl (VNum 3)) args h'))
                 \<and> (\<forall>U name w b x1 x2. once_closure name w = Some (VFun b) \<longrightarrow>
                       (\<exists>h1. call_method h' (VMock c) name w = (None, h1)
                          \<and> fst (fn U h1 c x1) = fst (call_behaviour U (VFun b) x1 h1)
                          \<and> fst (fn U (snd (fn U h1 c x1)) c x2) =
                              fst (call_behaviour U (default_impl (VNum 3)) x2
                                     (snd (fn U h1 c x1))))))"
    using bspec [OF all m(2)] by (simp only: prod.case)
  have mock: "if KStr ''mock'' \<in> set reserved
          then fst (handler_get h' ?r (KStr ''mock'')) = Inr (VNum 1)
          else (\<exists>c. handler_get h' ?r (KStr ''mock'') = (Inr (VMock c), h')
                 \<and> isMock h' (VMock c) = Inr True
                 \<and> impl (target (h' ! c)) = default_impl (VNum 1)
                 \<and> (\<forall>U args. fst (fn U h' c args) =
                       fst (call_behaviour U (default_impl (VNum 1)) args h'))
                 \<and> (\<forall>U name w b x1 x2. once_closure name w = Some (VFun b) \<longrightarrow>
                       (\<exists>h1. call_method h' (VMock c) name w = (None, h1)
                          \<and> fst (fn U h1 c x1) = fst (call_behaviour U (VFun b) x1 h1)
                          \<and> fst (fn U (snd (fn U h1 c x1)) c x2) =
                              fst (call_behaviour U (default_impl (VNum 1)) x2
                                     (snd (fn U h1 c x1))))))"
    using bspec [OF all m(3)] by (simp only: prod.case)
  have r1: "KStr ''getUser'' \<notin> set reserved" "KStr ''count'' \<notin> set reserved"
    "KStr ''mock'' \<in> set reserved"
    by (simp_all add: reserved_def)
  from getUser r1(1) obtain c where
    g: "handler_get h' ?r (KStr ''getUser'') = (Inr (VMock c), h')"
    and call: "\<And>U args. fst (fn U h' c args) =
        fst (call_behaviour U (default_impl (VFun (User 0))) args h')"
    and once: "\<And>U name w b x1 x2. once_closure name w = Some (VFun b) \<Longrightarrow>
        \<exists>h1. call_method h' (VMock c) name w = (None, h1)
           \<and> fst (fn U h1 c x1) = fst (call_behaviour U (VFun b) x1 h1)
           \<and> fst (fn U (snd (fn U h1 c x1)) c x2) =
               fst (call_behaviour U (default_impl (VFun (User 0))) x2 (snd (fn U h1 c x1)))"
    by (simp only: if_False) blast
  have oc: "once_closure ''mockResolvedValueOnce'' (VNum 9) = Some (VFun (Resolve (VNum 9)))"
    by (simp add: once_closure_def)
  from once [OF oc, of ?U "[VStr ''2'']" "[VStr ''3'']"] obtain h1 where
    cm: "call_method h' (VMock c) ''mockResolvedValueOnce'' (VNum 9) = (None, h1)"
    and f1: "fst (fn ?U h1 c [VStr ''2'']) =
        fst (call_behaviour ?U (VFun (Resolve (VNum 9))) [VStr ''2''] h1)"
    and f2: "fst (fn ?U (snd (fn ?U h1 c [VStr ''2''])) c [VStr ''3'']) =
        fst (call_behaviour ?U (default_impl (VFun (User 0))) [VStr ''3'']
              (snd (fn ?U h1 c [VStr ''2''])))"
    by blast
  from count r1(2) obtain c2 where
    g2: "handler_get h' ?r (KStr ''count'') = (Inr (VMock c2), h')"
    and call2: "\<And>U args. fst (fn U h' c2 args) =
        fst (call_behaviour U (default_impl (VNum 3)) args h')"
    by (simp only: if_False) blast
  from mock r1(3) have g3: "fst (handler_get h' ?r (KStr ''mock'')) = Inr (VNum 1)"
    by (simp only: if_True)
  have e1: "fst (fn ?U h' c [VStr ''1'']) = Inr (VArr [VStr ''1''])"
    by (simp add: call call_behaviour_def default_impl_def)
  have e2: "fst (fn ?U h1 c [VStr ''2'']) = Inr (VPromiseResolve (VNum 9))"
    by (simp add: f1 call_behaviour_def promise_resolve_def)
  have e3: "fst (fn ?U (snd (fn ?U h1 c [VStr ''2''])) c [VStr ''3'']) = Inr (VArr [VStr ''3''])"
    by (simp add: f2 call_behaviour_def default_impl_def)
  have e4: "fst (fn ?U h' c2 []) = Inr (VNum 3)"
    by (simp add: call2 call_behaviour_def default_impl_def)
  from eq g e1 cm e2 e3 g2 e4 g3 show ?thesis by blast
qed

end
